theory Spec2Isabelle
  imports Complex_Main "HOL-Library.Char_ord" "HOL-Library.List_Lexorder"
begin

section \<open>Python strings and the helpers of utils.py\<close>

text \<open>
  A Python \<open>str\<close> is modelled as a \<open>string\<close>; a \<open>char\<close> stands for a code point of
  the Latin-1 range, and \<open>length\<close> is Python's \<open>len\<close>. \<open>is_space\<close> is the class \<open>\s\<close>
  of the \<open>re\<close> module (and of \<open>str.strip\<close>) on that range.
\<close>

definition is_space :: "char \<Rightarrow> bool" where
  "is_space c = (of_char c \<in> set [9, 10, 11, 12, 13, 28, 29, 30, 31, 32, 133, 160 :: nat])"

definition py_lstrip :: "string \<Rightarrow> string" where
  "py_lstrip s = dropWhile is_space s"

definition py_rstrip :: "string \<Rightarrow> string" where
  "py_rstrip s = rev (dropWhile is_space (rev s))"

definition py_strip :: "string \<Rightarrow> string" where
  "py_strip s = py_rstrip (py_lstrip s)"

text \<open>\<open>re.sub(r"\s+", " ", value)\<close>: every maximal run of white space becomes one blank.\<close>

function sub_spaces :: "string \<Rightarrow> string" where
  "sub_spaces [] = []"
| "sub_spaces (c # cs) =
     (if is_space c then CHR '' '' # sub_spaces (dropWhile is_space cs)
      else c # sub_spaces cs)"
  by pat_completeness auto
termination
  by (relation "measure length") (auto simp: less_Suc_eq_le length_dropWhile_le)

definition compact_spaces :: "string \<Rightarrow> string" where
  "compact_spaces v = py_strip (sub_spaces v)"

text \<open>
  \<open>take_quote(text, limit)\<close>. The slice \<open>trimmed[: max(0, limit - 3)]\<close> has a stop that is
  never negative, so it is \<open>take\<close>.
\<close>

definition take_quote :: "string \<Rightarrow> int \<Rightarrow> string" where
  "take_quote txt limit =
     (let trimmed = compact_spaces txt in
      if int (length trimmed) \<le> limit then trimmed
      else py_rstrip (take (nat (max 0 (limit - 3))) trimmed) @ ''...'')"

definition estimate_tokens :: "string \<Rightarrow> int" where
  "estimate_tokens txt = max 1 (int (length txt) div 4)"

text \<open>Decimal rendering of integers: \<open>str(i)\<close> and the format \<open>{i:02d}\<close>.\<close>

fun nat_digits :: "nat \<Rightarrow> string" where
  "nat_digits n =
     (if n < 10 then [char_of (48 + n)]
      else nat_digits (n div 10) @ [char_of (48 + n mod 10)])"

declare nat_digits.simps [simp del]

definition py_str_int :: "int \<Rightarrow> string" where
  "py_str_int i = (if i < 0 then CHR ''-'' # nat_digits (nat (- i)) else nat_digits (nat i))"

definition fmt_02d :: "int \<Rightarrow> string" where
  "fmt_02d i = (if 0 \<le> i \<and> i < 10 then CHR ''0'' # py_str_int i else py_str_int i)"

definition seconds_to_hms :: "int option \<Rightarrow> string" where
  "seconds_to_hms seconds =
     (case seconds of
        None \<Rightarrow> ''00:00:00''
      | Some s \<Rightarrow>
          (let hours = s div 3600;
               minutes = (s mod 3600) div 60;
               secs = s mod 60
           in fmt_02d hours @ '':'' @ fmt_02d minutes @ '':'' @ fmt_02d secs))"

text \<open>\<open>sep.join(lines)\<close>.\<close>

fun py_join :: "string \<Rightarrow> string list \<Rightarrow> string" where
  "py_join sep [] = []"
| "py_join sep [l] = l"
| "py_join sep (l # ls) = l @ sep @ py_join sep ls"

text \<open>\<open>str.lower\<close> on the Latin-1 range.\<close>

definition lower_char :: "char \<Rightarrow> char" where
  "lower_char c =
     (let n = (of_char c :: nat) in
      if (65 \<le> n \<and> n \<le> 90) \<or> (192 \<le> n \<and> n \<le> 222 \<and> n \<noteq> 215) then char_of (n + 32) else c)"

definition py_lower :: "string \<Rightarrow> string" where
  "py_lower s = map lower_char s"

text \<open>\<open>a in b\<close> on strings: \<open>a\<close> occurs in \<open>b\<close> as a contiguous substring.\<close>

fun py_in :: "string \<Rightarrow> string \<Rightarrow> bool" where
  "py_in a [] = (a = [])"
| "py_in a (c # cs) = (take (length a) (c # cs) = a \<or> py_in a cs)"


section \<open>The data model of schemas.py and models.py\<close>

text \<open>
  Pydantic models and table rows are records; a field of type \<open>int | None\<close> is an
  \<open>int option\<close>. Field names carry the name of their class as a prefix.
\<close>

record segment =
  seg_id :: "int option"
  seg_episode_id :: "int option"
  seg_speaker :: "string option"
  seg_t_start_sec :: "int option"
  seg_t_end_sec :: "int option"
  seg_youtube_url :: "string option"
  seg_text :: string
  seg_hash :: "string option"

record topic =
  top_id :: "int option"
  top_episode_id :: "int option"
  top_name :: string
  top_summary :: string
  top_start_seg_id :: "int option"
  top_end_seg_id :: "int option"

record chunk =
  chk_id :: "int option"
  chk_episode_id :: "int option"
  chk_topic_id :: "int option"
  chk_start_seg_id :: "int option"
  chk_end_seg_id :: "int option"
  chk_t_start_sec :: "int option"
  chk_t_end_sec :: "int option"
  chk_segment_ids :: "int list"
  chk_chunk_text :: string

datatype entity_type =
  Model | Company | Framework | Hardware | Benchmark | Paper | Product | Concept

record entity =
  ent_id :: "int option"
  ent_type :: entity_type
  ent_canonical_name :: string
  ent_aliases :: "string list"
  ent_first_seen_episode_id :: "int option"
  ent_last_seen_episode_id :: "int option"

datatype assertion_type = Fact | Opinion | Prediction | Recommendation | Anecdote

record assertion =
  asr_id :: "int option"
  asr_episode_id :: int
  asr_entity_id :: "int option"
  asr_assertion_type :: assertion_type
  asr_statement :: string
  asr_speaker :: "string option"
  asr_confidence :: real
  asr_verify_priority :: int
  asr_segment_ids :: "int list"
  asr_evidence_quote :: string

text \<open>A row of the table \<open>assertions\<close>: the fields of the schema and the unique hash.\<close>

record assertion_row = assertion +
  asr_hash :: string

record tech_card =
  card_entity_id :: int
  card_short_definition :: string
  card_key_points :: "string list"
  card_comparisons :: "string list"
  card_recent_summary :: string

record card_result =
  cr_cards :: "tech_card list"
  cr_needs_refine :: bool


section \<open>The chunk windower of chunking.py\<close>

text \<open>
  Exceptions of the Python code are values: a function that can raise returns
  \<open>py_error + 'a\<close>. A loop that can run forever returns an \<open>option\<close>, with \<open>None\<close>
  for a run that never returns.
\<close>

datatype py_error = IndexError | ZeroDivisionError | ProviderError

text \<open>
  \<open>xs[start:stop]\<close> for a start that is not negative and any integer stop: a negative
  stop counts from the end of the list, and both ends are clamped.
\<close>

definition py_slice :: "'a list \<Rightarrow> nat \<Rightarrow> int \<Rightarrow> 'a list" where
  "py_slice xs start stop =
     (let n = int (length xs);
          stop' = (if stop < 0 then max 0 (stop + n) else min stop n)
      in take (nat stop' - start) (drop start xs))"

text \<open>\<open>xs.index(x)\<close> for an \<open>x\<close> that occurs in \<open>xs\<close>: the position of its first occurrence.\<close>

definition py_index :: "'a list \<Rightarrow> 'a \<Rightarrow> nat" where
  "py_index xs x = length (takeWhile (\<lambda>y. y \<noteq> x) xs)"

text \<open>\<open>value or default\<close> on an optional string: \<open>None\<close> and the empty string are falsy.\<close>

definition str_or :: "string option \<Rightarrow> string \<Rightarrow> string" where
  "str_or v d = (case v of None \<Rightarrow> d | Some s \<Rightarrow> if s = [] then d else s)"

definition segment_lines :: "segment \<Rightarrow> string list" where
  "segment_lines seg =
     (let timestamp = seconds_to_hms (seg_t_start_sec seg);
          link = (if str_or (seg_youtube_url seg) [] \<noteq> []
                  then ''['' @ str_or (seg_youtube_url seg) [] @ '']'' else [])
      in [str_or (seg_speaker seg) ''Unknown'' @ '' ('' @ timestamp @ '')'' @ link,
          seg_text seg])"

definition build_chunk_text :: "topic option \<Rightarrow> segment list \<Rightarrow> string" where
  "build_chunk_text topic segments =
     (let lines = (case topic of None \<Rightarrow> [] | Some t \<Rightarrow> [''[Topic: '' @ top_name t @ '']''])
                  @ concat (map segment_lines segments)
      in py_strip (py_join [CHR 0x0A] lines))"

text \<open>\<open>_make_chunk\<close> reads \<open>segments[0]\<close> and \<open>segments[-1]\<close>: an empty window raises.\<close>

definition make_chunk :: "topic option \<Rightarrow> segment list \<Rightarrow> string \<Rightarrow> py_error + chunk" where
  "make_chunk topic segments chunk_text =
     (case segments of
        [] \<Rightarrow> Inl IndexError
      | start # _ \<Rightarrow>
          (let end_seg = last segments in
           Inr \<lparr> chk_id = None,
                 chk_episode_id = None,
                 chk_topic_id = (case topic of None \<Rightarrow> None | Some t \<Rightarrow> top_id t),
                 chk_start_seg_id = seg_id start,
                 chk_end_seg_id = seg_id end_seg,
                 chk_t_start_sec = seg_t_start_sec start,
                 chk_t_end_sec = seg_t_end_sec end_seg,
                 chk_segment_ids = List.map_filter seg_id segments,
                 chk_chunk_text = chunk_text \<rparr>))"

text \<open>
  The inner loop of \<open>_build_topic_chunks\<close>: drop the last segment while the text is over
  the budget and the window is longer than \<open>min_segs\<close>. The text is rebuilt from the
  window at every turn, so the loop state is the window alone. With a negative
  \<open>min_segs\<close> the loop need not end (\<open>[][:-1]\<close> is \<open>[]\<close>).
\<close>

partial_function (option) trim_window ::
  "topic option \<Rightarrow> int \<Rightarrow> int \<Rightarrow> segment list \<Rightarrow> segment list option" where
  "trim_window topic max_tokens min_segs window =
     (if estimate_tokens (build_chunk_text topic window) > max_tokens
         \<and> int (length window) > min_segs
      then trim_window topic max_tokens min_segs (butlast window)
      else Some window)"

declare trim_window.simps [code]

text \<open>
  The outer loop of \<open>_build_topic_chunks\<close>, from window start \<open>idx\<close>. The result is
  \<open>None\<close> when the inner loop does not return, \<open>Some (Inl e)\<close> when \<open>_make_chunk\<close>
  raises, and \<open>Some (Inr chunks)\<close> otherwise.
\<close>

function build_topic_chunks_from ::
  "topic option \<Rightarrow> segment list \<Rightarrow> int \<Rightarrow> int \<Rightarrow> int \<Rightarrow> int \<Rightarrow> nat
     \<Rightarrow> (py_error + chunk list) option" where
  "build_topic_chunks_from topic segments max_tokens min_segs max_segs overlap idx =
     (let total = length segments in
      if idx < total then
        (let window = py_slice segments idx (min (int total) (int idx + max_segs)) in
         if int (length window) < min_segs then Some (Inr [])
         else
           (case trim_window topic max_tokens min_segs window of
              None \<Rightarrow> None
            | Some window' \<Rightarrow>
                if int (length window') < min_segs then Some (Inr [])
                else
                  (case make_chunk topic window' (build_chunk_text topic window') of
                     Inl e \<Rightarrow> Some (Inl e)
                   | Inr c \<Rightarrow>
                       (case build_topic_chunks_from topic segments max_tokens min_segs
                               max_segs overlap
                               (idx + nat (max 1 (int (length window') - overlap))) of
                          None \<Rightarrow> None
                        | Some (Inl e) \<Rightarrow> Some (Inl e)
                        | Some (Inr chunks) \<Rightarrow> Some (Inr (c # chunks))))))
      else Some (Inr []))"
  by pat_completeness auto
termination
  by (relation "measure (\<lambda>(topic, segments, max_tokens, min_segs, max_segs, overlap, idx).
        length segments - idx)") auto

declare build_topic_chunks_from.simps [simp del]

definition build_topic_chunks ::
  "topic option \<Rightarrow> segment list \<Rightarrow> int \<Rightarrow> int \<Rightarrow> int \<Rightarrow> int \<Rightarrow> (py_error + chunk list) option" where
  "build_topic_chunks topic segments max_tokens min_segs max_segs overlap =
     build_topic_chunks_from topic segments max_tokens min_segs max_segs overlap 0"

definition topic_range :: "segment list \<Rightarrow> int list \<Rightarrow> topic \<Rightarrow> topic option \<times> segment list" where
  "topic_range segments seg_ids t =
     (case (top_start_seg_id t, top_end_seg_id t) of
        (Some s, Some e) \<Rightarrow>
          if s \<in> set seg_ids \<and> e \<in> set seg_ids then
            (let start_idx = py_index seg_ids s;
                 end_idx = py_index seg_ids e
             in if start_idx \<le> end_idx
                then (Some t, py_slice segments start_idx (int end_idx + 1))
                else (Some t, segments))
          else (Some t, segments)
      | _ \<Rightarrow> (Some t, segments))"

definition topic_ranges :: "topic list \<Rightarrow> segment list \<Rightarrow> (topic option \<times> segment list) list" where
  "topic_ranges topics segments =
     (if topics = [] then [(None, segments)]
      else map (topic_range segments (List.map_filter seg_id segments)) topics)"

text \<open>The loop of \<open>build_chunks_from_topics\<close> over the topic ranges.\<close>

fun extend_chunks ::
  "segment list \<Rightarrow> int \<Rightarrow> int \<Rightarrow> int \<Rightarrow> int \<Rightarrow> (topic option \<times> segment list) list
     \<Rightarrow> (py_error + chunk list) option" where
  "extend_chunks ordered_segments max_tokens min_segs max_segs overlap [] = Some (Inr [])"
| "extend_chunks ordered_segments max_tokens min_segs max_segs overlap ((topic, segs) # rest) =
     (let segs_to_use = (if int (length segs) \<ge> min_segs then segs else ordered_segments) in
      case build_topic_chunks topic segs_to_use max_tokens min_segs max_segs overlap of
        None \<Rightarrow> None
      | Some (Inl e) \<Rightarrow> Some (Inl e)
      | Some (Inr cs) \<Rightarrow>
          (case extend_chunks ordered_segments max_tokens min_segs max_segs overlap rest of
             None \<Rightarrow> None
           | Some (Inl e) \<Rightarrow> Some (Inl e)
           | Some (Inr cs') \<Rightarrow> Some (Inr (cs @ cs'))))"

definition build_chunks_from_topics ::
  "topic list \<Rightarrow> segment list \<Rightarrow> int \<Rightarrow> int \<Rightarrow> int \<Rightarrow> int \<Rightarrow> (py_error + chunk list) option" where
  "build_chunks_from_topics topics segments max_tokens min_segs max_segs overlap =
     (let ordered_segments =
            sort_key (\<lambda>s. case seg_id s of None \<Rightarrow> 0 | Some i \<Rightarrow> i)
              (filter (\<lambda>seg. seg_id seg \<noteq> None) segments)
      in if ordered_segments = [] then Some (Inr [])
         else extend_chunks ordered_segments max_tokens min_segs max_segs overlap
                (topic_ranges topics ordered_segments))"


section \<open>Persistence: the upserts of storage.py\<close>

text \<open>
  A table is the list of its rows in storage order. A column with a unique constraint
  holds each value at most once, so \<open>scalar_one_or_none\<close> is \<open>find\<close>. A new row gets the
  next free primary key. The digest of \<open>hash_text\<close> is modelled by the text it digests
  (a digest without collisions).
\<close>

definition hash_text :: "string \<Rightarrow> string" where
  "hash_text v = py_strip v"

definition normalize_name :: "string \<Rightarrow> string" where
  "normalize_name v = py_lower (sub_spaces (py_strip v))"

definition fresh_id :: "int option list \<Rightarrow> int" where
  "fresh_id ids = fold max (List.map_filter id ids) 0 + 1"

text \<open>An attribute assignment on the object that a query returned: the row changes in place.\<close>

fun update_row :: "('a \<Rightarrow> bool) \<Rightarrow> ('a \<Rightarrow> 'a) \<Rightarrow> 'a list \<Rightarrow> 'a list" where
  "update_row P f [] = []"
| "update_row P f (r # rs) = (if P r then f r # rs else r # update_row P f rs)"

text \<open>
  The loop of \<open>upsert_entities\<close>. \<open>stored\<close> collects references to rows, which a later
  turn of the loop may change again; the model collects the keys of the rows and reads
  them from the table when the loop is over.
\<close>

fun upsert_entities_loop :: "int \<Rightarrow> entity list \<Rightarrow> entity list \<Rightarrow> string list \<times> entity list" where
  "upsert_entities_loop episode_id [] table = ([], table)"
| "upsert_entities_loop episode_id (ent # ents) table =
     (let canonical = normalize_name (ent_canonical_name ent) in
      case find (\<lambda>r. ent_canonical_name r = canonical) table of
        Some existing \<Rightarrow>
          (let table1 = update_row (\<lambda>r. ent_canonical_name r = canonical)
                 (\<lambda>r. r\<lparr> ent_last_seen_episode_id := Some episode_id,
                         ent_aliases := sort (remdups (ent_aliases r @ ent_aliases ent)) \<rparr>) table;
               (stored, table2) = upsert_entities_loop episode_id ents table1
           in (canonical # stored, table2))
      | None \<Rightarrow>
          (let created = \<lparr> ent_id = Some (fresh_id (map ent_id table)),
                           ent_type = ent_type ent,
                           ent_canonical_name = canonical,
                           ent_aliases = ent_aliases ent,
                           ent_first_seen_episode_id = Some episode_id,
                           ent_last_seen_episode_id = Some episode_id \<rparr>;
               (stored, table2) = upsert_entities_loop episode_id ents (table @ [created])
           in (canonical # stored, table2)))"

definition upsert_entities :: "int \<Rightarrow> entity list \<Rightarrow> entity list \<Rightarrow> entity list \<times> entity list" where
  "upsert_entities episode_id entities table =
     (let (stored, table') = upsert_entities_loop episode_id entities table
      in (List.map_filter (\<lambda>c. find (\<lambda>r. ent_canonical_name r = c) table') stored, table'))"

definition py_repr_int_list :: "int list \<Rightarrow> string" where
  "py_repr_int_list xs = ''['' @ py_join '', '' (map py_str_int xs) @ '']''"

definition assertion_hash :: "assertion \<Rightarrow> string" where
  "assertion_hash a =
     hash_text (py_str_int (asr_episode_id a) @ ''|'' @ asr_statement a @ ''|''
                @ (case asr_speaker a of None \<Rightarrow> ''None'' | Some sp \<Rightarrow> sp) @ ''|''
                @ py_repr_int_list (asr_segment_ids a))"

fun upsert_assertions ::
  "assertion list \<Rightarrow> assertion_row list \<Rightarrow> assertion_row list \<times> assertion_row list" where
  "upsert_assertions [] table = ([], table)"
| "upsert_assertions (a # as) table =
     (let hash_value = assertion_hash a in
      case find (\<lambda>r. asr_hash r = hash_value) table of
        Some existing \<Rightarrow>
          (let (stored, table') = upsert_assertions as table in (existing # stored, table'))
      | None \<Rightarrow>
          (let created = \<lparr> asr_id = Some (fresh_id (map asr_id table)),
                           asr_episode_id = asr_episode_id a,
                           asr_entity_id = asr_entity_id a,
                           asr_assertion_type = asr_assertion_type a,
                           asr_statement = asr_statement a,
                           asr_speaker = asr_speaker a,
                           asr_confidence = asr_confidence a,
                           asr_verify_priority = asr_verify_priority a,
                           asr_segment_ids = asr_segment_ids a,
                           asr_evidence_quote = asr_evidence_quote a,
                           asr_hash = hash_value \<rparr>;
               (stored, table') = upsert_assertions as (table @ [created])
           in (created # stored, table')))"

fun upsert_cards_loop :: "tech_card list \<Rightarrow> tech_card list \<Rightarrow> int list \<times> tech_card list" where
  "upsert_cards_loop [] table = ([], table)"
| "upsert_cards_loop (crd # cards) table =
     (case find (\<lambda>r. card_entity_id r = card_entity_id crd) table of
        Some existing \<Rightarrow>
          (let table1 = update_row (\<lambda>r. card_entity_id r = card_entity_id crd)
                 (\<lambda>r. r\<lparr> card_short_definition := card_short_definition crd,
                         card_key_points := card_key_points crd,
                         card_comparisons := card_comparisons crd,
                         card_recent_summary := card_recent_summary crd \<rparr>) table;
               (stored, table2) = upsert_cards_loop cards table1
           in (card_entity_id crd # stored, table2))
      | None \<Rightarrow>
          (let created = \<lparr> card_entity_id = card_entity_id crd,
                           card_short_definition = card_short_definition crd,
                           card_key_points = card_key_points crd,
                           card_comparisons = card_comparisons crd,
                           card_recent_summary = card_recent_summary crd \<rparr>;
               (stored, table2) = upsert_cards_loop cards (table @ [created])
           in (card_entity_id crd # stored, table2)))"

definition upsert_cards :: "tech_card list \<Rightarrow> tech_card list \<Rightarrow> tech_card list \<times> tech_card list" where
  "upsert_cards cards table =
     (let (stored, table') = upsert_cards_loop cards table
      in (List.map_filter (\<lambda>k. find (\<lambda>r. card_entity_id r = k) table') stored, table'))"


section \<open>The nodes of the ingestion pipeline (nodes.py, chunk_nodes.py)\<close>

text \<open>
  One record holds the keys of \<open>GraphState\<close> that the ingestion nodes use (\<open>gs_\<close>), the
  tables that the modelled nodes write (\<open>db_\<close>), and the number of nodes run so far.
  \<open>episode_id\<close> and \<open>segments\<close> are set by the entry node before any node reads them. A key
  read with \<open>state.get\<close> is an \<open>option\<close>.
\<close>

record world =
  gs_source_url :: "string option"
  gs_file_texts :: "string list"
  gs_episode_id :: int
  gs_episode_title :: "string option"
  gs_segments :: "segment list"
  gs_topics :: "topic list"
  gs_chunks :: "chunk list"
  gs_entities :: "entity list"
  gs_assertions :: "assertion_row list"
  gs_cards :: "tech_card list"
  gs_refine_count :: "int option"
  gs_needs_refine :: "bool option"
  db_entities :: "entity list"
  db_assertions :: "assertion_row list"
  db_cards :: "tech_card list"
  w_step :: nat

text \<open>
  The collaborators of a run, each a function of the whole situation of its call, so
  that an answer may change from one call to the next: the parser with the upserts of
  the episode and its segments, the Extraction Oracle (\<open>call_json\<close>) per task, with the
  upsert of topics, and the upsert of chunks. The model covers the runs in which they
  return.
\<close>

record env =
  env_parse :: "world \<Rightarrow> int \<times> string option \<times> segment list"
  env_topics :: "world \<Rightarrow> topic list"
  env_stored_chunks :: "world \<Rightarrow> chunk list"
  env_entities :: "world \<Rightarrow> entity list"
  env_assertions :: "world \<Rightarrow> assertion list"
  env_cards :: "world \<Rightarrow> card_result"

definition parse_and_segment :: "env \<Rightarrow> world \<Rightarrow> world" where
  "parse_and_segment e w =
     (case env_parse e w of
        (episode_id, title, stored_segments) \<Rightarrow>
          w\<lparr> gs_episode_id := episode_id,
             gs_episode_title := title,
             gs_segments := stored_segments \<rparr>)"

definition topic_threader :: "env \<Rightarrow> world \<Rightarrow> world" where
  "topic_threader e w = w\<lparr> gs_topics := env_topics e w \<rparr>"

definition chunk_builder :: "world \<Rightarrow> (py_error + world) option" where
  "chunk_builder w =
     (case build_chunks_from_topics (gs_topics w) (gs_segments w) 800 2 6 1 of
        None \<Rightarrow> None
      | Some (Inl err) \<Rightarrow> Some (Inl err)
      | Some (Inr chunks) \<Rightarrow> Some (Inr (w\<lparr> gs_chunks := chunks \<rparr>)))"

definition chunk_persist :: "env \<Rightarrow> world \<Rightarrow> world" where
  "chunk_persist e w = w\<lparr> gs_chunks := env_stored_chunks e w \<rparr>"

definition entity_extractor :: "env \<Rightarrow> world \<Rightarrow> world" where
  "entity_extractor e w =
     (let (stored, table') = upsert_entities (gs_episode_id w) (env_entities e w) (db_entities w)
      in w\<lparr> gs_entities := stored, db_entities := table' \<rparr>)"

text \<open>\<open>{seg.id: seg for seg in segments if seg.id is not None}\<close>: a later segment wins.\<close>

definition seg_lookup_of :: "segment list \<Rightarrow> (int \<rightharpoonup> segment)" where
  "seg_lookup_of segments =
     fold (\<lambda>seg m. case seg_id seg of None \<Rightarrow> m | Some i \<Rightarrow> m(i \<mapsto> seg)) segments Map.empty"

text \<open>
  One turn of the loop of \<open>assertion_extractor\<close>. \<open>None\<close> is \<open>continue\<close>. The first
  component of the result names the branch that produced the evidence quote; the code
  has no such value, it is there to state which branch ran.
\<close>

datatype quote_source = Kept | From_segment | From_statement

definition process_assertion ::
  "(int \<rightharpoonup> segment) \<Rightarrow> int \<Rightarrow> assertion \<Rightarrow> (quote_source \<times> assertion) option" where
  "process_assertion seg_lookup episode_id a =
     (let a1 = a\<lparr> asr_episode_id := episode_id \<rparr>;
          a2 = a1\<lparr> asr_segment_ids := filter (\<lambda>sid. seg_lookup sid \<noteq> None) (asr_segment_ids a1) \<rparr>
      in case asr_segment_ids a2 of
           [] \<Rightarrow> None
         | sid0 # _ \<Rightarrow>
             (let quote = asr_evidence_quote a2 in
              if quote = [] \<or> length quote > 240 then
                (case seg_lookup sid0 of
                   Some first_seg \<Rightarrow>
                     Some (From_segment,
                           a2\<lparr> asr_evidence_quote := take_quote (seg_text first_seg) 240 \<rparr>)
                 | None \<Rightarrow>
                     Some (From_statement,
                           a2\<lparr> asr_evidence_quote := take_quote (asr_statement a2) 240 \<rparr>))
              else Some (Kept, a2\<lparr> asr_evidence_quote := quote \<rparr>)))"

definition postprocess_assertions :: "segment list \<Rightarrow> int \<Rightarrow> assertion list \<Rightarrow> assertion list" where
  "postprocess_assertions segments episode_id raw =
     map snd (List.map_filter (process_assertion (seg_lookup_of segments) episode_id) raw)"

definition assertion_extractor :: "env \<Rightarrow> world \<Rightarrow> world" where
  "assertion_extractor e w =
     (let assertions = postprocess_assertions (gs_segments w) (gs_episode_id w) (env_assertions e w);
          (stored, table') = upsert_assertions assertions (db_assertions w)
      in w\<lparr> gs_assertions := stored, db_assertions := table' \<rparr>)"

definition get_refine_count :: "world \<Rightarrow> int" where
  "get_refine_count w = (case gs_refine_count w of None \<Rightarrow> 0 | Some n \<Rightarrow> n)"

definition card_upserter :: "env \<Rightarrow> world \<Rightarrow> world" where
  "card_upserter e w =
     (let result = env_cards e w in
      if cr_needs_refine result then
        w\<lparr> gs_needs_refine := Some True, gs_refine_count := Some (get_refine_count w + 1) \<rparr>
      else
        (let (stored, table') = upsert_cards (cr_cards result) (db_cards w);
             needs_refine = list_ex (\<lambda>c. card_short_definition c = []) (cr_cards result)
         in w\<lparr> gs_cards := stored,
               gs_needs_refine := Some needs_refine,
               gs_refine_count := Some (get_refine_count w),
               db_cards := table' \<rparr>))"

text \<open>\<open>indexer\<close> embeds chunks and returns the state as it is; no modelled table changes.\<close>

definition indexer :: "world \<Rightarrow> world" where
  "indexer w = w"

datatype route = Refine | END

definition should_refine :: "world \<Rightarrow> route" where
  "should_refine w =
     (if gs_needs_refine w = Some True \<and> get_refine_count w < 2 then Refine else END)"

section \<open>The ingestion graph (graph.py)\<close>

datatype node =
  Parse | Topics | Chunk_builder | Chunk_persist | Entities | Assertions | Cards | Index

definition run_node :: "env \<Rightarrow> node \<Rightarrow> world \<Rightarrow> (py_error + world) option" where
  "run_node e n w =
     (case n of
        Parse \<Rightarrow> Some (Inr (parse_and_segment e w))
      | Topics \<Rightarrow> Some (Inr (topic_threader e w))
      | Chunk_builder \<Rightarrow> chunk_builder w
      | Chunk_persist \<Rightarrow> Some (Inr (chunk_persist e w))
      | Entities \<Rightarrow> Some (Inr (entity_extractor e w))
      | Assertions \<Rightarrow> Some (Inr (assertion_extractor e w))
      | Cards \<Rightarrow> Some (Inr (card_upserter e w))
      | Index \<Rightarrow> Some (Inr (indexer w)))"

text \<open>The edges of \<open>build_ingest_graph\<close>; \<open>None\<close> is the end of the run.\<close>

definition next_node :: "node \<Rightarrow> world \<Rightarrow> node option" where
  "next_node n w =
     (case n of
        Parse \<Rightarrow> Some Topics
      | Topics \<Rightarrow> Some Chunk_builder
      | Chunk_builder \<Rightarrow> Some Chunk_persist
      | Chunk_persist \<Rightarrow> Some Entities
      | Entities \<Rightarrow> Some Assertions
      | Assertions \<Rightarrow> Some Cards
      | Cards \<Rightarrow> (case should_refine w of Refine \<Rightarrow> Some Assertions | END \<Rightarrow> Some Index)
      | Index \<Rightarrow> None)"

text \<open>
  A run from node \<open>n\<close>: the nodes visited, each with the situation it left. The graph
  has a cycle, so the run carries fuel, and \<open>None\<close> is a run that has not ended when
  the fuel is used up (or whose node does not return).
\<close>

fun run_graph :: "nat \<Rightarrow> env \<Rightarrow> node \<Rightarrow> world \<Rightarrow> (py_error + (node \<times> world) list) option" where
  "run_graph 0 e n w = None"
| "run_graph (Suc fuel) e n w =
     (case run_node e n w of
        None \<Rightarrow> None
      | Some (Inl err) \<Rightarrow> Some (Inl err)
      | Some (Inr w1) \<Rightarrow>
          (let w2 = w1\<lparr> w_step := Suc (w_step w1) \<rparr> in
           case next_node n w2 of
             None \<Rightarrow> Some (Inr [(n, w2)])
           | Some n' \<Rightarrow>
               (case run_graph fuel e n' w2 of
                  None \<Rightarrow> None
                | Some (Inl err) \<Rightarrow> Some (Inl err)
                | Some (Inr trace) \<Rightarrow> Some (Inr ((n, w2) # trace)))))"

definition run_ingest :: "nat \<Rightarrow> env \<Rightarrow> world \<Rightarrow> (py_error + (node \<times> world) list) option" where
  "run_ingest fuel e w = run_graph fuel e Parse w"

text \<open>How often a run took the edge from \<open>a\<close> to \<open>b\<close>.\<close>

definition edge_count :: "node \<Rightarrow> node \<Rightarrow> (node \<times> world) list \<Rightarrow> nat" where
  "edge_count a b trace =
     length (filter (\<lambda>p. p = (a, b)) (zip (map fst trace) (tl (map fst trace))))"


section \<open>Retrieval fusion: qa_chain of nodes.py\<close>

text \<open>
  A Python \<open>dict\<close> keeps its keys in the order of their first insertion, and the
  ranking depends on that order, so \<open>chunk_scores\<close> is an association list. Scores and
  distances are real numbers.
\<close>

definition dict_get :: "('k \<times> 'v) list \<Rightarrow> 'k \<Rightarrow> 'v \<Rightarrow> 'v" where
  "dict_get d k dflt = (case map_of d k of None \<Rightarrow> dflt | Some v \<Rightarrow> v)"

definition dict_set :: "('k \<times> 'v) list \<Rightarrow> 'k \<Rightarrow> 'v \<Rightarrow> ('k \<times> 'v) list" where
  "dict_set d k v =
     (if k \<in> fst ` set d then map (\<lambda>(k', v'). if k' = k then (k', v) else (k', v')) d
      else d @ [(k, v)])"

text \<open>The loop over the results of one query; \<open>1.0 / (1.0 + distance)\<close> raises at \<open>-1\<close>.\<close>

fun fuse_results :: "(int \<times> real) list \<Rightarrow> (int \<times> real) list \<Rightarrow> py_error + (int \<times> real) list" where
  "fuse_results [] chunk_scores = Inr chunk_scores"
| "fuse_results ((chunk_id, distance) # rest) chunk_scores =
     (if 1 + distance = 0 then Inl ZeroDivisionError
      else
        (let score = 1 / (1 + distance) in
         fuse_results rest
           (dict_set chunk_scores chunk_id (max (dict_get chunk_scores chunk_id 0) score))))"

text \<open>
  The loop over the queries. \<open>search q top_k\<close> is \<open>embed_query\<close> followed by
  \<open>similarity_search_chunks\<close>: the chunk ids found with their distances, or an error.
\<close>

fun fuse_queries ::
  "(string \<Rightarrow> int \<Rightarrow> py_error + (int \<times> real) list) \<Rightarrow> int \<Rightarrow> string list
     \<Rightarrow> (int \<times> real) list \<Rightarrow> py_error + (int \<times> real) list" where
  "fuse_queries search top_k [] chunk_scores = Inr chunk_scores"
| "fuse_queries search top_k (q # qs) chunk_scores =
     (case search q top_k of
        Inl err \<Rightarrow> Inl err
      | Inr chunk_results \<Rightarrow>
          (case fuse_results chunk_results chunk_scores of
             Inl err \<Rightarrow> Inl err
           | Inr chunk_scores' \<Rightarrow> fuse_queries search top_k qs chunk_scores'))"

text \<open>\<open>sorted(chunk_scores.keys(), key=..., reverse=True)\<close>: stable, highest score first.\<close>

definition rank_chunks :: "(int \<times> real) list \<Rightarrow> int list" where
  "rank_chunks chunk_scores =
     sort_key (\<lambda>cid. - dict_get chunk_scores cid 0) (map fst chunk_scores)"

text \<open>
  The table \<open>chunk_segments\<close> has rows \<open>(chunk_id, segment_id, ord)\<close>;
  \<open>fetch_segment_ids_for_chunk\<close> orders the rows of a chunk by \<open>ord\<close>.
\<close>

definition fetch_segment_ids_for_chunk :: "(int \<times> int \<times> int) list \<Rightarrow> int \<Rightarrow> int list" where
  "fetch_segment_ids_for_chunk chunk_segments chunk_id =
     map (\<lambda>(c, s, ord). s)
       (sort_key (\<lambda>(c, s, ord). ord) (filter (\<lambda>(c, s, ord). c = chunk_id) chunk_segments))"

text \<open>\<open>list(dict.fromkeys(xs))\<close>: each value once, at its first occurrence.\<close>

definition dedupe :: "'a list \<Rightarrow> 'a list" where
  "dedupe xs = fold (\<lambda>x acc. if x \<in> set acc then acc else acc @ [x]) xs []"

text \<open>
  \<open>fetch_segments_by_ids\<close> runs \<open>SELECT ... WHERE id IN (...)\<close> with no \<open>ORDER BY\<close>:
  the rows of the table whose id is in the list, in the order of the table; the order
  of the list does not reach the query.
\<close>

definition fetch_segments_by_ids :: "segment list \<Rightarrow> int list \<Rightarrow> segment list" where
  "fetch_segments_by_ids segment_table segment_ids =
     (if segment_ids = [] then []
      else filter (\<lambda>seg. case seg_id seg of None \<Rightarrow> False | Some i \<Rightarrow> i \<in> set segment_ids)
             segment_table)"

record optimized =
  opt_queries :: "string list"
  opt_top_k_chunks :: int

record qa_env =
  qa_search :: "string \<Rightarrow> int \<Rightarrow> py_error + (int \<times> real) list"
  qa_chunk_segments :: "(int \<times> int \<times> int) list"
  qa_segment_table :: "segment list"

text \<open>The ids handed to \<open>fetch_segments_by_ids\<close> inside the \<open>try\<close> block.\<close>

definition fused_segment_ids :: "qa_env \<Rightarrow> string \<Rightarrow> optimized option \<Rightarrow> py_error + int list" where
  "fused_segment_ids e question opt =
     (let (queries, top_k) =
            (case opt of
               None \<Rightarrow> ([question], 8)
             | Some ob \<Rightarrow> if opt_queries ob \<noteq> [] then (opt_queries ob, opt_top_k_chunks ob)
                         else ([question], 8))
      in case fuse_queries (qa_search e) top_k queries [] of
           Inl err \<Rightarrow> Inl err
         | Inr chunk_scores \<Rightarrow>
             Inr (dedupe (concat (map (fetch_segment_ids_for_chunk (qa_chunk_segments e))
                                      (rank_chunks chunk_scores)))))"

text \<open>The \<open>try\<close> block: any exception leaves \<open>hits\<close> empty.\<close>

definition fusion_hits :: "qa_env \<Rightarrow> string \<Rightarrow> optimized option \<Rightarrow> segment list" where
  "fusion_hits e question opt =
     (case fused_segment_ids e question opt of
        Inl err \<Rightarrow> []
      | Inr chunk_segment_ids \<Rightarrow>
          if chunk_segment_ids \<noteq> [] then fetch_segments_by_ids (qa_segment_table e) chunk_segment_ids
          else [])"

text \<open>The fallback tiers: substring match of the question, then the first three segments.\<close>

definition fallback_hits :: "segment list \<Rightarrow> string \<Rightarrow> segment list" where
  "fallback_hits segments question =
     (let hits = filter (\<lambda>seg. py_in (py_lower question) (py_lower (seg_text seg))) segments
      in if hits = [] then take 3 segments else hits)"

definition qa_hits :: "qa_env \<Rightarrow> segment list \<Rightarrow> string \<Rightarrow> optimized option \<Rightarrow> segment list" where
  "qa_hits e segments question opt =
     (let hits = fusion_hits e question opt
      in if hits = [] then fallback_hits segments question else hits)"

record citation =
  cit_segment_id :: "int option"
  cit_speaker :: "string option"
  cit_timestamp :: "int option"
  cit_youtube_url :: "string option"
  cit_quote :: string

definition cite :: "segment \<Rightarrow> citation" where
  "cite seg = \<lparr> cit_segment_id = seg_id seg,
                cit_speaker = seg_speaker seg,
                cit_timestamp = seg_t_start_sec seg,
                cit_youtube_url = seg_youtube_url seg,
                cit_quote = take_quote (seg_text seg) 360 \<rparr>"

text \<open>The citations of the answer that \<open>qa_chain\<close> returns: the first eight hits.\<close>

definition qa_citations :: "qa_env \<Rightarrow> segment list \<Rightarrow> string \<Rightarrow> optimized option \<Rightarrow> citation list" where
  "qa_citations e segments question opt = map cite (take 8 (qa_hits e segments question opt))"

section \<open>Concrete inputs\<close>

definition example_segment :: "int \<Rightarrow> string \<Rightarrow> segment" where
  "example_segment i t =
     \<lparr> seg_id = Some i, seg_episode_id = Some 1, seg_speaker = Some ''Lex'',
       seg_t_start_sec = Some (60 * i), seg_t_end_sec = Some (60 * i + 59),
       seg_youtube_url = None, seg_text = t, seg_hash = None \<rparr>"

definition example_assertion :: "int list \<Rightarrow> string \<Rightarrow> assertion" where
  "example_assertion sids quote =
     \<lparr> asr_id = None, asr_episode_id = 0, asr_entity_id = None, asr_assertion_type = Opinion,
       asr_statement = ''GPUs are costly'', asr_speaker = Some ''Lex'', asr_confidence = 1 / 2,
       asr_verify_priority = 1, asr_segment_ids = sids, asr_evidence_quote = quote \<rparr>"

definition example_text :: string where
  "example_text = ''  Inference   cost is  falling ''"

definition example_world :: world where
  "example_world =
     \<lparr> gs_source_url = None, gs_file_texts = [''Lex (00:07:00): Inference cost is falling''],
       gs_episode_id = 0, gs_episode_title = None, gs_segments = [], gs_topics = [],
       gs_chunks = [], gs_entities = [], gs_assertions = [], gs_cards = [],
       gs_refine_count = Some 0, gs_needs_refine = None,
       db_entities = [], db_assertions = [], db_cards = [], w_step = 0 \<rparr>"

text \<open>Collaborators whose card oracle asks for a refinement at every call.\<close>

definition example_env :: env where
  "example_env =
     \<lparr> env_parse = (\<lambda>w. (1, Some ''Episode'',
                          [example_segment 7 example_text, example_segment 8 ''Agents use tools''])),
       env_topics = (\<lambda>w. []),
       env_stored_chunks = (\<lambda>w. gs_chunks w),
       env_entities = (\<lambda>w. []),
       env_assertions = (\<lambda>w. [example_assertion [99, 7] []]),
       env_cards = (\<lambda>w. \<lparr> cr_cards = [], cr_needs_refine = True \<rparr>) \<rparr>"

text \<open>
  A search provider for two queries: \<open>A\<close> finds chunk 1 at distance 0.1, any other query
  finds chunk 1 at distance 0.5 and chunk 2 at distance 0.3.
\<close>

definition example_search :: "string \<Rightarrow> int \<Rightarrow> py_error + (int \<times> real) list" where
  "example_search q top_k = (if q = ''A'' then Inr [(1, 1 / 10)] else Inr [(1, 1 / 2), (2, 3 / 10)])"

text \<open>
  An episode of four segments in two chunks: chunk 1 holds segments 1 and 2, chunk 2
  holds segments 3 and 4. The only query finds chunk 1 at distance 0.5 and chunk 2 at
  distance 0.1, so chunk 2 ranks first.
\<close>

definition example_qa_env :: qa_env where
  "example_qa_env =
     \<lparr> qa_search = (\<lambda>q top_k. Inr [(1, 1 / 2), (2, 1 / 10)]),
       qa_chunk_segments = [(1, 1, 0), (1, 2, 1), (2, 3, 0), (2, 4, 1)],
       qa_segment_table = [example_segment 1 ''Training is costly'', example_segment 2 ''Chips matter'',
                           example_segment 3 ''Inference cost is falling'',
                           example_segment 4 ''Agents use tools''] \<rparr>"

text \<open>An embedding and search provider that always fails.\<close>

definition failing_qa_env :: qa_env where
  "failing_qa_env =
     \<lparr> qa_search = (\<lambda>q top_k. Inl ProviderError),
       qa_chunk_segments = [],
       qa_segment_table = [] \<rparr>"

text \<open>A segment text of 300 characters, and an evidence quote of 241.\<close>

definition example_long_text :: string where
  "example_long_text = concat (replicate 100 ''ab '')"

definition example_long_quote :: string where
  "example_long_quote = replicate 241 (CHR ''x'')"

text \<open>
  A card oracle that offers two cards and asks for a refinement at every call, and a
  start with one card in the table.
\<close>

definition example_card :: "int \<Rightarrow> string \<Rightarrow> tech_card" where
  "example_card i d =
     \<lparr> card_entity_id = i, card_short_definition = d, card_key_points = [],
       card_comparisons = [], card_recent_summary = ''none'' \<rparr>"

definition card_env :: env where
  "card_env =
     example_env\<lparr> env_cards :=
       (\<lambda>w. \<lparr> cr_cards = [example_card 1 ''new definition'', example_card 2 ''second''],
                cr_needs_refine = True \<rparr>) \<rparr>"

definition card_world :: world where
  "card_world = example_world\<lparr> db_cards := [example_card 1 ''old definition''] \<rparr>"

section \<open>Properties\<close>


subsection \<open>Evidence quotes\<close>


lemma length_py_rstrip_le: "length (py_rstrip s) \<le> length s"
  unfolding py_rstrip_def using length_dropWhile_le [of is_space "rev s"] by simp

lemma take_quote_length: "3 \<le> limit \<Longrightarrow> int (length (take_quote txt limit)) \<le> limit"
proof -
  assume l: "3 \<le> limit"
  let ?t = "compact_spaces txt"
  show ?thesis
  proof (cases "int (length ?t) \<le> limit")
    case True
    then show ?thesis by (simp add: take_quote_def)
  next
    case False
    have "length (py_rstrip (take (nat (limit - 3)) ?t)) \<le> nat (limit - 3)"
      using length_py_rstrip_le [of "take (nat (limit - 3)) ?t"] by simp
    with False l show ?thesis by (simp add: take_quote_def Let_def)
  qed
qed

lemma take_quote_240: "length (take_quote txt 240) \<le> 240"
  using take_quote_length [of "240" "txt"] by simp

lemma seg_lookup_fold_dom:
  "dom (fold (\<lambda>seg m. case seg_id seg of None \<Rightarrow> m | Some i \<Rightarrow> m(i \<mapsto> seg)) segs m0)
     = dom m0 \<union> {i. \<exists>seg \<in> set segs. seg_id seg = Some i}"
  by (induction segs arbitrary: m0) (auto split: option.splits)

lemma dom_seg_lookup_of: "dom (seg_lookup_of segs) = {i. \<exists>seg \<in> set segs. seg_id seg = Some i}"
  by (simp add: seg_lookup_of_def seg_lookup_fold_dom)

lemma filter_hd_in: "filter P xs = y # ys \<Longrightarrow> P y"
  by (metis filter_eq_Cons_iff)

lemma filter_Cons_mem: "filter P xs = y # ys \<Longrightarrow> y \<in> set xs \<and> P y"
  by (metis filter_eq_Cons_iff in_set_conv_decomp)

lemma process_assertion_None:
  "process_assertion lk ep a = None \<longleftrightarrow> (\<forall>sid \<in> set (asr_segment_ids a). lk sid = None)"
  by (auto simp: process_assertion_def Let_def filter_empty_conv split: list.splits option.splits
      dest: filter_Cons_mem)

lemma process_assertion_Some:
  assumes "process_assertion lk ep a = Some (src, a')"
  shows "src \<noteq> From_statement"
    and "length (asr_evidence_quote a') \<le> 240"
    and "asr_segment_ids a' = filter (\<lambda>sid. lk sid \<noteq> None) (asr_segment_ids a)"
    and "asr_segment_ids a' \<noteq> []"
    and "asr_evidence_quote a = [] \<or> 240 < length (asr_evidence_quote a) \<Longrightarrow>
           \<exists>seg. lk (hd (asr_segment_ids a')) = Some seg \<and> src = From_segment
              \<and> asr_evidence_quote a' = take_quote (seg_text seg) 240"
    and "\<not> (asr_evidence_quote a = [] \<or> 240 < length (asr_evidence_quote a)) \<Longrightarrow>
           src = Kept \<and> asr_evidence_quote a' = asr_evidence_quote a"
  using assms
  by (auto simp: process_assertion_def Let_def take_quote_240 split: list.splits option.splits if_splits
      dest: filter_hd_in)


lemma upsert_assertions_rows:
  "upsert_assertions as table = (stored, table') \<Longrightarrow>
     (\<forall>r \<in> set table'. r \<in> set table \<or> (\<exists>a \<in> set as. asr_evidence_quote r = asr_evidence_quote a))
     \<and> set stored \<subseteq> set table' \<and> set table \<subseteq> set table'"
proof (induction as arbitrary: table stored table')
  case Nil
  then show ?case by simp
next
  case (Cons a as)
  show ?case
  proof (cases "find (\<lambda>r. asr_hash r = assertion_hash a) table")
    case None
    let ?c = "\<lparr> asr_id = Some (fresh_id (map asr_id table)),
                           asr_episode_id = asr_episode_id a,
                           asr_entity_id = asr_entity_id a,
                           asr_assertion_type = asr_assertion_type a,
                           asr_statement = asr_statement a,
                           asr_speaker = asr_speaker a,
                           asr_confidence = asr_confidence a,
                           asr_verify_priority = asr_verify_priority a,
                           asr_segment_ids = asr_segment_ids a,
                           asr_evidence_quote = asr_evidence_quote a,
                           asr_hash = assertion_hash a \<rparr>"
    obtain st t2 where r: "upsert_assertions as (table @ [?c]) = (st, t2)" by fastforce
    with None Cons.prems have eq: "stored = ?c # st" "table' = t2" by (auto simp: Let_def)
    from Cons.IH [OF r] eq show ?thesis by auto
  next
    case (Some ex)
    obtain st t2 where r: "upsert_assertions as table = (st, t2)" by fastforce
    with Some Cons.prems have eq: "stored = ex # st" "table' = t2" by (auto simp: Let_def)
    from Some have "ex \<in> set table" by (auto simp: find_Some_iff)
    with Cons.IH [OF r] eq show ?thesis by auto
  qed
qed




lemma seg_lookup_fold_Some:
  "fold (\<lambda>seg m. case seg_id seg of None \<Rightarrow> m | Some i \<Rightarrow> m(i \<mapsto> seg)) segs m0 i = Some s \<Longrightarrow>
     m0 i = Some s \<or> (s \<in> set segs \<and> seg_id s = Some i)"
proof (induction segs arbitrary: m0)
  case Nil
  then show ?case by simp
next
  case (Cons a segs)
  show ?case
  proof (cases "seg_id a")
    case None
    with Cons.prems Cons.IH [of m0] show ?thesis by auto
  next
    case (Some j)
    with Cons.prems
    have f: "fold (\<lambda>seg m. case seg_id seg of None \<Rightarrow> m | Some i \<Rightarrow> m(i \<mapsto> seg)) segs
               (m0(j \<mapsto> a)) i = Some s" by simp
    from Cons.IH [OF f] have "(m0(j \<mapsto> a)) i = Some s \<or> (s \<in> set segs \<and> seg_id s = Some i)" .
    with Some show ?thesis by (auto split: if_splits)
  qed
qed

lemma seg_lookup_of_Some:
  "seg_lookup_of segs i = Some s \<Longrightarrow> s \<in> set segs \<and> seg_id s = Some i"
  using seg_lookup_fold_Some [of segs Map.empty i s] by (simp add: seg_lookup_of_def)

lemma seg_lookup_of_None:
  "seg_lookup_of segs i = None \<longleftrightarrow> (\<forall>seg \<in> set segs. seg_id seg \<noteq> Some i)"
proof -
  have "seg_lookup_of segs i = None \<longleftrightarrow> i \<notin> dom (seg_lookup_of segs)" by (simp add: domIff)
  then show ?thesis by (simp add: dom_seg_lookup_of)
qed

lemma process_assertion_first:
  assumes "process_assertion lk ep a = Some (src, a')"
  shows "\<exists>seg. lk (hd (asr_segment_ids a')) = Some seg
           \<and> hd (asr_segment_ids a') \<in> set (asr_segment_ids a')"
  using assms
  by (auto simp: process_assertion_def Let_def split: list.splits option.splits if_splits
      dest: filter_Cons_mem)

lemma postprocess_assertions_mem:
  "a' \<in> set (postprocess_assertions segs ep raw) \<Longrightarrow>
     \<exists>a \<in> set raw. \<exists>src. process_assertion (seg_lookup_of segs) ep a = Some (src, a')"
  by (fastforce simp: postprocess_assertions_def List.map_filter_def)


lemma dropWhile_keeps: "x \<in> set xs \<Longrightarrow> \<not> P x \<Longrightarrow> x \<in> set (dropWhile P xs)"
  by (induction xs) auto

lemma py_strip_keeps: "c \<in> set s \<Longrightarrow> \<not> is_space c \<Longrightarrow> c \<in> set (py_strip s)"
proof -
  assume a: "c \<in> set s" "\<not> is_space c"
  then have "c \<in> set (rev (py_lstrip s))" by (simp add: py_lstrip_def dropWhile_keeps)
  with a(2) have "c \<in> set (dropWhile is_space (rev (py_lstrip s)))"
    using dropWhile_keeps [of c "rev (py_lstrip s)" is_space] by blast
  then show ?thesis by (simp add: py_strip_def py_rstrip_def)
qed

lemma sub_spaces_keeps: "c \<in> set s \<Longrightarrow> \<not> is_space c \<Longrightarrow> c \<in> set (sub_spaces s)"
proof (induction s rule: sub_spaces.induct)
  case 1
  then show ?case by simp
next
  case (2 x xs)
  show ?case
  proof (cases "is_space x")
    case True
    with 2(3,4) have "c \<in> set xs" by auto
    with 2(4) have "c \<in> set (dropWhile is_space xs)" by (simp add: dropWhile_keeps)
    with 2(1) [OF True] 2(4) True show ?thesis by simp
  next
    case False
    with 2(2) [OF False] 2(3,4) show ?thesis by auto
  qed
qed

lemma compact_spaces_nonblank: "\<exists>c \<in> set t. \<not> is_space c \<Longrightarrow> compact_spaces t \<noteq> []"
  unfolding compact_spaces_def using sub_spaces_keeps py_strip_keeps by fastforce

lemma take_quote_240_eq:
  "take_quote t 240 =
     (if length (compact_spaces t) \<le> 240 then compact_spaces t
      else py_rstrip (take 237 (compact_spaces t)) @ ''...'')"
  by (simp add: take_quote_def Let_def)

lemma take_quote_240_nonblank: "\<exists>c \<in> set t. \<not> is_space c \<Longrightarrow> take_quote t 240 \<noteq> []"
  using compact_spaces_nonblank [of t] by (simp add: take_quote_240_eq)

lemma example_long_compact: "compact_spaces example_long_text = concat (replicate 99 ''ab '') @ ''ab''"
  unfolding example_long_text_def by code_simp

lemma example_long_take_quote: "take_quote example_long_text 240 = concat (replicate 78 ''ab '') @ ''ab...''"
  unfolding example_long_text_def by code_simp

lemma example_long_process_assertion:
  "process_assertion (seg_lookup_of [example_segment 7 example_long_text]) 1
       (example_assertion [7] example_long_quote)
     = Some (From_segment,
             (example_assertion [7] (concat (replicate 78 ''ab '') @ ''ab...''))\<lparr> asr_episode_id := 1 \<rparr>)"
  unfolding example_long_text_def example_long_quote_def by code_simp



text \<open>
  C7. Every row that \<open>assertion_extractor\<close> adds to the table of assertions has an
  evidence quote of at most 240 characters, and so has every assertion handed to the
  upsert, each of which refers to a segment of the current list. An assertion is
  dropped exactly when none of its segment ids is the id of a current segment. A
  missing or longer quote is replaced by a quote from the text of the first referenced
  segment that is current: that text with its white space compacted when it has at
  most 240 characters, and otherwise its first 237 characters, without trailing white
  space, followed by three dots; the new quote is not empty when the text has a
  character that is not white space. Any other quote is kept.
\<close>

theorem evidence_quote_bound:
  "(\<forall>r \<in> set (db_assertions (assertion_extractor e w)).
       r \<in> set (db_assertions w) \<or> length (asr_evidence_quote r) \<le> 240)
   \<and> (\<forall>a \<in> set (postprocess_assertions segs ep raw).
         length (asr_evidence_quote a) \<le> 240
         \<and> (\<exists>sid \<in> set (asr_segment_ids a). \<exists>seg \<in> set segs. seg_id seg = Some sid))
   \<and> (process_assertion (seg_lookup_of segs) ep a = None
        \<longleftrightarrow> (\<forall>sid \<in> set (asr_segment_ids a). \<forall>seg \<in> set segs. seg_id seg \<noteq> Some sid))
   \<and> (\<forall>src a'. process_assertion (seg_lookup_of segs) ep a = Some (src, a')
         \<longrightarrow> length (asr_evidence_quote a') \<le> 240
           \<and> (asr_evidence_quote a = [] \<or> 240 < length (asr_evidence_quote a)
                \<longrightarrow> (\<exists>seg \<in> set segs. seg_id seg = Some (hd (asr_segment_ids a'))
                       \<and> seg_lookup_of segs (hd (asr_segment_ids a')) = Some seg
                       \<and> asr_evidence_quote a' = take_quote (seg_text seg) 240
                       \<and> asr_evidence_quote a'
                           = (if length (compact_spaces (seg_text seg)) \<le> 240
                              then compact_spaces (seg_text seg)
                              else py_rstrip (take 237 (compact_spaces (seg_text seg))) @ ''...'')
                       \<and> ((\<exists>c \<in> set (seg_text seg). \<not> is_space c)
                            \<longrightarrow> asr_evidence_quote a' \<noteq> [])))
           \<and> (\<not> (asr_evidence_quote a = [] \<or> 240 < length (asr_evidence_quote a))
                \<longrightarrow> asr_evidence_quote a' = asr_evidence_quote a))"
proof (intro conjI)
  show "\<forall>r \<in> set (db_assertions (assertion_extractor e w)).
       r \<in> set (db_assertions w) \<or> length (asr_evidence_quote r) \<le> 240"
  proof
    fix r assume r: "r \<in> set (db_assertions (assertion_extractor e w))"
    let ?as = "postprocess_assertions (gs_segments w) (gs_episode_id w) (env_assertions e w)"
    obtain st t' where u: "upsert_assertions ?as (db_assertions w) = (st, t')" by fastforce
    then have "db_assertions (assertion_extractor e w) = t'"
      by (simp add: assertion_extractor_def Let_def)
    with r upsert_assertions_rows [OF u]
    have "r \<in> set (db_assertions w) \<or> (\<exists>a \<in> set ?as. asr_evidence_quote r = asr_evidence_quote a)"
      by blast
    then show "r \<in> set (db_assertions w) \<or> length (asr_evidence_quote r) \<le> 240"
      using postprocess_assertions_mem process_assertion_Some(2) by metis
  qed
next
  show "\<forall>a \<in> set (postprocess_assertions segs ep raw).
         length (asr_evidence_quote a) \<le> 240
         \<and> (\<exists>sid \<in> set (asr_segment_ids a). \<exists>seg \<in> set segs. seg_id seg = Some sid)"
  proof
    fix a' assume "a' \<in> set (postprocess_assertions segs ep raw)"
    then obtain a src where p: "process_assertion (seg_lookup_of segs) ep a = Some (src, a')"
      using postprocess_assertions_mem by blast
    from process_assertion_first [OF p]
    obtain sid where "sid \<in> set (asr_segment_ids a')" "seg_lookup_of segs sid \<noteq> None"
      by auto
    then have "\<exists>sid \<in> set (asr_segment_ids a'). \<exists>seg \<in> set segs. seg_id seg = Some sid"
      by (auto simp: seg_lookup_of_None)
    with process_assertion_Some(2) [OF p]
    show "length (asr_evidence_quote a') \<le> 240
         \<and> (\<exists>sid \<in> set (asr_segment_ids a'). \<exists>seg \<in> set segs. seg_id seg = Some sid)" by simp
  qed
next
  show "process_assertion (seg_lookup_of segs) ep a = None
        \<longleftrightarrow> (\<forall>sid \<in> set (asr_segment_ids a). \<forall>seg \<in> set segs. seg_id seg \<noteq> Some sid)"
    by (simp add: process_assertion_None seg_lookup_of_None)
next
  show "\<forall>src a'. process_assertion (seg_lookup_of segs) ep a = Some (src, a')
         \<longrightarrow> length (asr_evidence_quote a') \<le> 240
           \<and> (asr_evidence_quote a = [] \<or> 240 < length (asr_evidence_quote a)
                \<longrightarrow> (\<exists>seg \<in> set segs. seg_id seg = Some (hd (asr_segment_ids a'))
                       \<and> seg_lookup_of segs (hd (asr_segment_ids a')) = Some seg
                       \<and> asr_evidence_quote a' = take_quote (seg_text seg) 240
                       \<and> asr_evidence_quote a'
                           = (if length (compact_spaces (seg_text seg)) \<le> 240
                              then compact_spaces (seg_text seg)
                              else py_rstrip (take 237 (compact_spaces (seg_text seg))) @ ''...'')
                       \<and> ((\<exists>c \<in> set (seg_text seg). \<not> is_space c)
                            \<longrightarrow> asr_evidence_quote a' \<noteq> [])))
           \<and> (\<not> (asr_evidence_quote a = [] \<or> 240 < length (asr_evidence_quote a))
                \<longrightarrow> asr_evidence_quote a' = asr_evidence_quote a)"
  proof (intro allI impI conjI)
    fix src a' assume p: "process_assertion (seg_lookup_of segs) ep a = Some (src, a')"
    show "length (asr_evidence_quote a') \<le> 240" by (rule process_assertion_Some(2) [OF p])
    {
      assume c: "asr_evidence_quote a = [] \<or> 240 < length (asr_evidence_quote a)"
      from process_assertion_Some(5) [OF p c] obtain seg where
        l: "seg_lookup_of segs (hd (asr_segment_ids a')) = Some seg"
        and q: "asr_evidence_quote a' = take_quote (seg_text seg) 240" by blast
      from seg_lookup_of_Some [OF l] have m: "seg \<in> set segs"
        and i: "seg_id seg = Some (hd (asr_segment_ids a'))" by simp_all
      have f: "asr_evidence_quote a'
                 = (if length (compact_spaces (seg_text seg)) \<le> 240
                    then compact_spaces (seg_text seg)
                    else py_rstrip (take 237 (compact_spaces (seg_text seg))) @ ''...'')"
        unfolding q by (rule take_quote_240_eq)
      have n: "(\<exists>c \<in> set (seg_text seg). \<not> is_space c) \<longrightarrow> asr_evidence_quote a' \<noteq> []"
        unfolding q using take_quote_240_nonblank by blast
      from m i l q f n
      show "\<exists>seg \<in> set segs. seg_id seg = Some (hd (asr_segment_ids a'))
                       \<and> seg_lookup_of segs (hd (asr_segment_ids a')) = Some seg
                       \<and> asr_evidence_quote a' = take_quote (seg_text seg) 240
                       \<and> asr_evidence_quote a'
                           = (if length (compact_spaces (seg_text seg)) \<le> 240
                              then compact_spaces (seg_text seg)
                              else py_rstrip (take 237 (compact_spaces (seg_text seg))) @ ''...'')
                       \<and> ((\<exists>c \<in> set (seg_text seg). \<not> is_space c)
                            \<longrightarrow> asr_evidence_quote a' \<noteq> [])"
        by (intro bexI [of _ seg]) simp_all
    }
    {
      assume "\<not> (asr_evidence_quote a = [] \<or> 240 < length (asr_evidence_quote a))"
      from process_assertion_Some(6) [OF p this]
      show "asr_evidence_quote a' = asr_evidence_quote a" by simp
    }
  qed
qed

text \<open>
  The witness has two inputs. The first has no quote and a short segment text. The
  second has a quote of 241 characters and a segment text of 300: the new quote is cut
  at 237 characters, loses the blank at its end, and ends in three dots.
\<close>

theorem evidence_quote_bound_witness:
  "map asr_evidence_quote
       (db_assertions (assertion_extractor example_env (parse_and_segment example_env example_world)))
     = [''Inference cost is falling'']
   \<and> length (asr_evidence_quote (hd
         (db_assertions (assertion_extractor example_env (parse_and_segment example_env example_world)))))
       \<le> 240
   \<and> process_assertion (seg_lookup_of [example_segment 7 example_long_text]) 1
         (example_assertion [7] example_long_quote)
       = Some (From_segment,
               (example_assertion [7] (concat (replicate 78 ''ab '') @ ''ab...''))\<lparr> asr_episode_id := 1 \<rparr>)
   \<and> concat (replicate 78 ''ab '') @ ''ab...''
       = py_rstrip (take 237 (compact_spaces example_long_text)) @ ''...''
   \<and> length (concat (replicate 78 ''ab '') @ ''ab...'') = 239
   \<and> length example_long_text = 300
   \<and> length example_long_quote = 241"
proof -
  let ?w = "parse_and_segment example_env example_world"
  let ?t = "db_assertions (assertion_extractor example_env ?w)"
  let ?a' = "(example_assertion [7] (concat (replicate 78 ''ab '') @ ''ab...''))\<lparr> asr_episode_id := 1 \<rparr>"
  have d: "db_assertions ?w = []"
    by (simp add: parse_and_segment_def example_env_def example_world_def)
  have m: "map asr_evidence_quote ?t = [''Inference cost is falling'']"
    by code_simp
  then have "hd ?t \<in> set ?t" by (cases ?t) auto
  with evidence_quote_bound [of example_env ?w] d
  have b: "length (asr_evidence_quote (hd ?t)) \<le> 240" by auto
  have q: "asr_evidence_quote (example_assertion [7] example_long_quote) = example_long_quote"
    and q': "asr_evidence_quote ?a' = concat (replicate 78 ''ab '') @ ''ab...''"
    by (simp_all add: example_assertion_def)
  have l: "length example_long_quote = 241" by (simp add: example_long_quote_def)
  have l': "length example_long_text = 300"
    by (simp add: example_long_text_def length_concat sum_list_replicate)
  have c: "\<not> length (compact_spaces example_long_text) \<le> 240"
    by (simp add: example_long_compact length_concat sum_list_replicate)
  from evidence_quote_bound [of example_env ?w "[example_segment 7 example_long_text]" 1 "[]"
      "example_assertion [7] example_long_quote"]
  have "\<forall>src a'. process_assertion (seg_lookup_of [example_segment 7 example_long_text]) 1
                    (example_assertion [7] example_long_quote) = Some (src, a')
         \<longrightarrow> (asr_evidence_quote (example_assertion [7] example_long_quote) = []
               \<or> 240 < length (asr_evidence_quote (example_assertion [7] example_long_quote))
              \<longrightarrow> (\<exists>seg \<in> set [example_segment 7 example_long_text].
                     asr_evidence_quote a'
                       = (if length (compact_spaces (seg_text seg)) \<le> 240
                          then compact_spaces (seg_text seg)
                          else py_rstrip (take 237 (compact_spaces (seg_text seg))) @ ''...'')))"
    by blast
  with example_long_process_assertion q l
  have "\<exists>seg \<in> set [example_segment 7 example_long_text].
          asr_evidence_quote ?a'
            = (if length (compact_spaces (seg_text seg)) \<le> 240
               then compact_spaces (seg_text seg)
               else py_rstrip (take 237 (compact_spaces (seg_text seg))) @ ''...'')"
    by simp
  with c q' have e: "concat (replicate 78 ''ab '') @ ''ab...''
       = py_rstrip (take 237 (compact_spaces example_long_text)) @ ''...''"
    by (simp add: example_segment_def)
  have n: "length (concat (replicate 78 ''ab '') @ ''ab...'') = 239"
    by (simp add: length_concat sum_list_replicate)
  show ?thesis
    by (intro conjI) (rule m b example_long_process_assertion e n l' l)+
qed



subsection \<open>The chunk windower returns\<close>

lemma trim_window_Some:
  assumes "trim_window topic mt ms w = Some w'"
  shows "\<not> (mt < estimate_tokens (build_chunk_text topic w') \<and> ms < int (length w'))
     \<and> (\<exists>k. w' = take k w)
     \<and> (ms \<le> int (length w) \<longrightarrow> ms \<le> int (length w'))"
proof -
  let ?P = "\<lambda>topic mt ms w w'.
     \<not> (mt < estimate_tokens (build_chunk_text topic w') \<and> ms < int (length w'))
     \<and> (\<exists>k. w' = take k w)
     \<and> (ms \<le> int (length w) \<longrightarrow> ms \<le> int (length w'))"
  have "?P topic mt ms w w'"
  proof (rule trim_window.raw_induct [where P = ?P, OF _ assms])
    fix trim :: "topic option \<Rightarrow> int \<Rightarrow> int \<Rightarrow> segment list \<Rightarrow> segment list option"
    fix topic mt ms w w'
    assume IH: "\<And>a b c d y. trim a b c d = Some y \<Longrightarrow> ?P a b c d y"
    assume eq: "(if mt < estimate_tokens (build_chunk_text topic w) \<and> ms < int (length w)
                 then trim topic mt ms (butlast w) else Some w) = Some w'"
    show "?P topic mt ms w w'"
    proof (cases "mt < estimate_tokens (build_chunk_text topic w) \<and> ms < int (length w)")
      case True
      with eq have r: "trim topic mt ms (butlast w) = Some w'" by simp
      from IH [OF r] obtain k where
        a: "\<not> (mt < estimate_tokens (build_chunk_text topic w') \<and> ms < int (length w'))"
        and k: "w' = take k (butlast w)"
        and l: "ms \<le> int (length (butlast w)) \<longrightarrow> ms \<le> int (length w')" by blast
      from k have "w' = take (min k (length w - 1)) w" by (simp add: butlast_conv_take min.commute)
      moreover from True have "ms \<le> int (length (butlast w))" by (cases w rule: rev_cases) auto
      ultimately show ?thesis using a l by blast
    next
      case False
      with eq have "w' = w" by simp
      with False show ?thesis by (metis take_all order_refl)
    qed
  qed
  then show ?thesis .
qed

lemma trim_window_total: "0 \<le> ms \<Longrightarrow> \<exists>w'. trim_window topic mt ms w = Some w'"
proof (induction "length w" arbitrary: w)
  case 0
  then show ?case by (subst trim_window.simps) simp
next
  case (Suc n)
  then have "length (butlast w) = n" by simp
  with Suc(1) [of "butlast w"] Suc(3) obtain w' where "trim_window topic mt ms (butlast w) = Some w'"
    by blast
  then show ?case by (subst trim_window.simps) simp
qed

lemma py_slice_take: "\<exists>n. py_slice xs i stop = take n (drop i xs)"
  by (auto simp: py_slice_def Let_def)

lemma make_chunk_Inr:
  "make_chunk topic w txt = Inr c \<Longrightarrow>
     w \<noteq> [] \<and> chk_chunk_text c = txt \<and> chk_segment_ids c = List.map_filter seg_id w"
  by (auto simp: make_chunk_def Let_def split: list.splits)

lemma make_chunk_nonempty: "w \<noteq> [] \<Longrightarrow> \<exists>c. make_chunk topic w txt = Inr c"
  by (auto simp: make_chunk_def Let_def split: list.splits)

lemma btc_step:
  assumes "build_topic_chunks_from topic segs mt ms mx ov idx = Some (Inr (c # rest))"
  shows "\<exists>w. idx < length segs
     \<and> trim_window topic mt ms (py_slice segs idx (min (int (length segs)) (int idx + mx))) = Some w
     \<and> ms \<le> int (length w)
     \<and> make_chunk topic w (build_chunk_text topic w) = Inr c
     \<and> build_topic_chunks_from topic segs mt ms mx ov (idx + nat (max 1 (int (length w) - ov)))
         = Some (Inr rest)"
  using assms
  by (subst (asm) build_topic_chunks_from.simps)
     (auto simp: Let_def split: if_splits option.splits sum.splits)

lemma btc_total:
  "1 \<le> ms \<Longrightarrow> \<exists>chunks. build_topic_chunks_from topic segs mt ms mx ov idx = Some (Inr chunks)"
proof (induction topic segs mt ms mx ov idx rule: build_topic_chunks_from.induct)
  case (1 topic segs mt ms mx ov idx)
  let ?win = "py_slice segs idx (min (int (length segs)) (int idx + mx))"
  from 1(2) obtain w where t: "trim_window topic mt ms ?win = Some w"
    using trim_window_total [of ms topic mt ?win] by auto
  show ?case
  proof (cases "idx < length segs \<and> \<not> int (length ?win) < ms \<and> \<not> int (length w) < ms")
    case False
    with t show ?thesis
      by (subst build_topic_chunks_from.simps) (auto simp: Let_def)
  next
    case True
    with 1(2) have "w \<noteq> []" by auto
    then obtain c where m: "make_chunk topic w (build_chunk_text topic w) = Inr c"
      using make_chunk_nonempty by blast
    from True t m 1(2) obtain rest where
      "build_topic_chunks_from topic segs mt ms mx ov (idx + nat (max 1 (int (length w) - ov)))
         = Some (Inr rest)"
      using 1(1) [of "length segs" ?win w c] by auto
    with True t m show ?thesis
      by (subst build_topic_chunks_from.simps) (auto simp: Let_def)
  qed
qed

lemma btc_mem:
  "build_topic_chunks_from topic segs mt ms mx ov idx = Some (Inr chunks) \<Longrightarrow> c \<in> set chunks \<Longrightarrow>
     \<exists>i w. idx \<le> i \<and> i < length segs
       \<and> trim_window topic mt ms (py_slice segs i (min (int (length segs)) (int i + mx))) = Some w
       \<and> ms \<le> int (length w)
       \<and> make_chunk topic w (build_chunk_text topic w) = Inr c"
proof (induction chunks arbitrary: idx)
  case Nil
  then show ?case by simp
next
  case (Cons c0 rest)
  from btc_step [OF Cons.prems(1)] obtain w where
    i: "idx < length segs"
    and t: "trim_window topic mt ms (py_slice segs idx (min (int (length segs)) (int idx + mx))) = Some w"
    and l: "ms \<le> int (length w)"
    and m: "make_chunk topic w (build_chunk_text topic w) = Inr c0"
    and r: "build_topic_chunks_from topic segs mt ms mx ov (idx + nat (max 1 (int (length w) - ov)))
         = Some (Inr rest)" by blast
  show ?case
  proof (cases "c = c0")
    case True
    with i t l m show ?thesis by blast
  next
    case False
    with Cons.prems(2) have "c \<in> set rest" by simp
    from Cons.IH [OF r this] obtain i' w' where
      "idx + nat (max 1 (int (length w) - ov)) \<le> i'" "i' < length segs"
      "trim_window topic mt ms (py_slice segs i' (min (int (length segs)) (int i' + mx))) = Some w'"
      "ms \<le> int (length w')" "make_chunk topic w' (build_chunk_text topic w') = Inr c" by blast
    moreover then have "idx \<le> i'" by linarith
    ultimately show ?thesis by blast
  qed
qed

subsection \<open>The refinement loop\<close>

lemma btc_total0:
  "1 \<le> ms \<Longrightarrow> \<exists>chunks. build_topic_chunks topic segs mt ms mx ov = Some (Inr chunks)"
  unfolding build_topic_chunks_def by (rule btc_total)

lemma extend_chunks_total:
  "1 \<le> ms \<Longrightarrow> \<exists>chunks. extend_chunks ordered mt ms mx ov ranges = Some (Inr chunks)"
proof (induction ranges)
  case Nil
  then show ?case by simp
next
  case (Cons r ranges)
  obtain topic segs where r: "r = (topic, segs)" by (cases r)
  let ?use = "if ms \<le> int (length segs) then segs else ordered"
  from Cons.prems obtain cs where a: "build_topic_chunks topic ?use mt ms mx ov = Some (Inr cs)"
    using btc_total0 by blast
  from Cons obtain cs' where b: "extend_chunks ordered mt ms mx ov ranges = Some (Inr cs')" by blast
  from a b r show ?case by (simp add: Let_def)
qed

lemma build_chunks_total:
  "1 \<le> ms \<Longrightarrow> \<exists>chunks. build_chunks_from_topics topics segs mt ms mx ov = Some (Inr chunks)"
  unfolding build_chunks_from_topics_def Let_def using extend_chunks_total by auto

lemma chunk_builder_total: "\<exists>chunks. chunk_builder w = Some (Inr (w\<lparr> gs_chunks := chunks \<rparr>))"
proof -
  obtain cs where "build_chunks_from_topics (gs_topics w) (gs_segments w) 800 2 6 1 = Some (Inr cs)"
    using build_chunks_total [of 2 "gs_topics w" "gs_segments w" 800 6 1] by auto
  then show ?thesis by (auto simp: chunk_builder_def)
qed

lemma card_upserter_refine:
  "cr_needs_refine (env_cards e w) \<Longrightarrow>
     card_upserter e w = w\<lparr> gs_needs_refine := Some True, gs_refine_count := Some (get_refine_count w + 1) \<rparr>"
  by (simp add: card_upserter_def)

lemma assertion_extractor_frame:
  "gs_refine_count (assertion_extractor e w) = gs_refine_count w"
  "gs_needs_refine (assertion_extractor e w) = gs_needs_refine w"
  "db_cards (assertion_extractor e w) = db_cards w"
  "w_step (assertion_extractor e w) = w_step w"
  by (simp_all add: assertion_extractor_def Let_def split_beta)

lemma entity_extractor_frame:
  "gs_refine_count (entity_extractor e w) = gs_refine_count w"
  "gs_needs_refine (entity_extractor e w) = gs_needs_refine w"
  "db_cards (entity_extractor e w) = db_cards w"
  by (simp_all add: entity_extractor_def Let_def split_beta)

lemma parse_and_segment_frame:
  "gs_refine_count (parse_and_segment e w) = gs_refine_count w"
  "gs_needs_refine (parse_and_segment e w) = gs_needs_refine w"
  "db_cards (parse_and_segment e w) = db_cards w"
  by (simp_all add: parse_and_segment_def split_beta)

lemma run_node_frame:
  assumes "run_node e n w = Some (Inr w1)" "n \<noteq> Cards"
  shows "gs_refine_count w1 = gs_refine_count w \<and> gs_needs_refine w1 = gs_needs_refine w
         \<and> db_cards w1 = db_cards w"
proof (cases n)
  case Chunk_builder
  with assms chunk_builder_total [of w] show ?thesis by (auto simp: run_node_def)
qed (use assms in \<open>auto simp: run_node_def assertion_extractor_frame entity_extractor_frame
      parse_and_segment_frame topic_threader_def chunk_persist_def indexer_def\<close>)

lemma run_node_cards_frame:
  assumes "run_node e n w = Some (Inr w1)" "\<forall>w. cr_needs_refine (env_cards e w)"
  shows "db_cards w1 = db_cards w"
proof (cases "n = Cards")
  case True
  with assms show ?thesis by (auto simp: run_node_def card_upserter_refine)
next
  case False
  with run_node_frame [OF assms(1)] show ?thesis by simp
qed

lemma run_graph_cards_frame:
  "run_graph fuel e n w = Some (Inr trace) \<Longrightarrow> \<forall>w. cr_needs_refine (env_cards e w) \<Longrightarrow>
     p \<in> set trace \<Longrightarrow> db_cards (snd p) = db_cards w"
proof (induction fuel arbitrary: n w trace)
  case 0
  then show ?case by simp
next
  case (Suc fuel)
  from Suc.prems(1) obtain w1 where r: "run_node e n w = Some (Inr w1)"
    by (auto split: option.splits sum.splits)
  let ?w2 = "w1\<lparr> w_step := Suc (w_step w1) \<rparr>"
  from run_node_cards_frame [OF r Suc.prems(2)] have c: "db_cards ?w2 = db_cards w" by simp
  show ?case
  proof (cases "next_node n ?w2")
    case None
    with Suc.prems(1) r have "trace = [(n, ?w2)]" by (simp add: Let_def)
    with Suc.prems(3) c show ?thesis by simp
  next
    case (Some n')
    with Suc.prems(1) r obtain tr where t: "run_graph fuel e n' ?w2 = Some (Inr tr)"
      and e: "trace = (n, ?w2) # tr"
      by (auto simp: Let_def split: option.splits sum.splits)
    from Suc.IH [OF t Suc.prems(2)] c e Suc.prems(3) show ?thesis by auto
  qed
qed


lemma run_graph_Suc:
  assumes "run_node e n w = Some (Inr w1)"
  shows "run_graph (Suc fuel) e n w =
     (case next_node n (w1\<lparr> w_step := Suc (w_step w1) \<rparr>) of
        None \<Rightarrow> Some (Inr [(n, w1\<lparr> w_step := Suc (w_step w1) \<rparr>)])
      | Some n' \<Rightarrow>
          (case run_graph fuel e n' (w1\<lparr> w_step := Suc (w_step w1) \<rparr>) of
             None \<Rightarrow> None
           | Some (Inl err) \<Rightarrow> Some (Inl err)
           | Some (Inr trace) \<Rightarrow> Some (Inr ((n, w1\<lparr> w_step := Suc (w_step w1) \<rparr>) # trace))))"
  using assms by (simp add: Let_def)

lemma refine_loop:
  assumes always: "\<forall>w. cr_needs_refine (env_cards e w)"
    and init: "get_refine_count w = 0"
  shows "\<exists>w6 w7 w8 w9 w10.
           run_graph (Suc (Suc (Suc (Suc (Suc fuel))))) e Assertions w
             = Some (Inr [(Assertions, w6), (Cards, w7), (Assertions, w8), (Cards, w9), (Index, w10)])
           \<and> gs_refine_count w7 = Some 1 \<and> gs_refine_count w9 = Some 2
           \<and> gs_refine_count w10 = Some 2"
proof -
  define st where "st = (\<lambda>w :: world. w\<lparr> w_step := Suc (w_step w) \<rparr>)"
  define w6 where "w6 = st (assertion_extractor e w)"
  define w7 where "w7 = st (card_upserter e w6)"
  define w8 where "w8 = st (assertion_extractor e w7)"
  define w9 where "w9 = st (card_upserter e w8)"
  define w10 where "w10 = st (indexer w9)"
  have c6: "get_refine_count w6 = 0"
    using init by (simp add: w6_def st_def get_refine_count_def assertion_extractor_frame)
  have c7: "gs_refine_count w7 = Some 1" "gs_needs_refine w7 = Some True"
    using always c6 by (simp_all add: w7_def st_def card_upserter_refine)
  have c8: "gs_refine_count w8 = Some 1" "gs_needs_refine w8 = Some True"
    using c7 by (simp_all add: w8_def st_def assertion_extractor_frame)
  have c9: "gs_refine_count w9 = Some 2" "gs_needs_refine w9 = Some True"
    using always c8 by (simp_all add: w9_def st_def card_upserter_refine get_refine_count_def)
  have c10: "gs_refine_count w10 = Some 2"
    using c9 by (simp add: w10_def st_def indexer_def)
  have r5: "run_graph (Suc fuel) e Index w9 = Some (Inr [(Index, w10)])"
    by (simp add: run_node_def next_node_def w10_def st_def Let_def)
  have r4: "run_graph (Suc (Suc fuel)) e Cards w8 = Some (Inr [(Cards, w9), (Index, w10)])"
    using r5 c9
    by (simp add: run_graph_Suc [of e Cards w8 "card_upserter e w8"] run_node_def next_node_def
        should_refine_def get_refine_count_def w9_def [symmetric, unfolded st_def] del: run_graph.simps)
  have r3: "run_graph (Suc (Suc (Suc fuel))) e Assertions w7
              = Some (Inr [(Assertions, w8), (Cards, w9), (Index, w10)])"
    using r4
    by (simp add: run_graph_Suc [of e Assertions w7 "assertion_extractor e w7"] run_node_def
        next_node_def w8_def [symmetric, unfolded st_def] del: run_graph.simps)
  have r2: "run_graph (Suc (Suc (Suc (Suc fuel)))) e Cards w6
              = Some (Inr [(Cards, w7), (Assertions, w8), (Cards, w9), (Index, w10)])"
    using r3 c7
    by (simp add: run_graph_Suc [of e Cards w6 "card_upserter e w6"] run_node_def next_node_def
        should_refine_def get_refine_count_def w7_def [symmetric, unfolded st_def] del: run_graph.simps)
  have r1: "run_graph (Suc (Suc (Suc (Suc (Suc fuel))))) e Assertions w
              = Some (Inr [(Assertions, w6), (Cards, w7), (Assertions, w8), (Cards, w9), (Index, w10)])"
    using r2
    by (simp add: run_graph_Suc [of e Assertions w "assertion_extractor e w"] run_node_def
        next_node_def w6_def [symmetric, unfolded st_def] del: run_graph.simps)
  from r1 c7 c9 c10 show ?thesis by blast
qed

lemma ingest_run:
  assumes always: "\<forall>w. cr_needs_refine (env_cards e w)"
    and init: "get_refine_count w = 0"
  shows "\<exists>trace. run_graph (Suc (Suc (Suc (Suc (Suc (Suc (Suc (Suc (Suc (Suc fuel)))))))))) e Parse w
             = Some (Inr trace)
           \<and> map fst trace = [Parse, Topics, Chunk_builder, Chunk_persist, Entities,
                              Assertions, Cards, Assertions, Cards, Index]
           \<and> gs_refine_count (snd (last trace)) = Some 2"
proof -
  define st where "st = (\<lambda>w :: world. w\<lparr> w_step := Suc (w_step w) \<rparr>)"
  define w1 where "w1 = st (parse_and_segment e w)"
  define w2 where "w2 = st (topic_threader e w1)"
  obtain cs where cb: "chunk_builder w2 = Some (Inr (w2\<lparr> gs_chunks := cs \<rparr>))"
    using chunk_builder_total by blast
  define w3 where "w3 = st (w2\<lparr> gs_chunks := cs \<rparr>)"
  define w4 where "w4 = st (chunk_persist e w3)"
  define w5 where "w5 = st (entity_extractor e w4)"
  have c5: "get_refine_count w5 = 0"
    using init
    by (simp add: w5_def w4_def w3_def w2_def w1_def st_def get_refine_count_def
        entity_extractor_frame parse_and_segment_frame chunk_persist_def topic_threader_def)
  from refine_loop [OF always c5, of fuel] obtain w6 w7 w8 w9 w10 where
    loop: "run_graph (Suc (Suc (Suc (Suc (Suc fuel))))) e Assertions w5
             = Some (Inr [(Assertions, w6), (Cards, w7), (Assertions, w8), (Cards, w9), (Index, w10)])"
    and c10: "gs_refine_count w10 = Some 2" by blast
  let ?tail = "[(Assertions, w6), (Cards, w7), (Assertions, w8), (Cards, w9), (Index, w10)]"
  have r5: "run_graph (Suc (Suc (Suc (Suc (Suc (Suc fuel)))))) e Entities w4
              = Some (Inr ((Entities, w5) # ?tail))"
    using loop
    by (simp add: run_graph_Suc [of e Entities w4 "entity_extractor e w4"] run_node_def
        next_node_def w5_def [symmetric, unfolded st_def] del: run_graph.simps)
  have r4: "run_graph (Suc (Suc (Suc (Suc (Suc (Suc (Suc fuel))))))) e Chunk_persist w3
              = Some (Inr ((Chunk_persist, w4) # (Entities, w5) # ?tail))"
    using r5
    by (simp add: run_graph_Suc [of e Chunk_persist w3 "chunk_persist e w3"] run_node_def
        next_node_def w4_def [symmetric, unfolded st_def] del: run_graph.simps)
  have r3: "run_graph (Suc (Suc (Suc (Suc (Suc (Suc (Suc (Suc fuel)))))))) e Chunk_builder w2
              = Some (Inr ((Chunk_builder, w3) # (Chunk_persist, w4) # (Entities, w5) # ?tail))"
  proof -
    have w3_eq: "w3 = w2\<lparr> gs_chunks := cs, w_step := Suc (w_step w2) \<rparr>"
      by (simp add: w3_def st_def)
    from r4 cb show ?thesis
      by (simp add: run_graph_Suc [of e Chunk_builder w2 "w2\<lparr> gs_chunks := cs \<rparr>"] run_node_def
          next_node_def w3_eq del: run_graph.simps)
  qed
  have r2: "run_graph (Suc (Suc (Suc (Suc (Suc (Suc (Suc (Suc (Suc fuel))))))))) e Topics w1
              = Some (Inr ((Topics, w2) # (Chunk_builder, w3) # (Chunk_persist, w4)
                           # (Entities, w5) # ?tail))"
    using r3
    by (simp add: run_graph_Suc [of e Topics w1 "topic_threader e w1"] run_node_def
        next_node_def w2_def [symmetric, unfolded st_def] del: run_graph.simps)
  have r1: "run_graph (Suc (Suc (Suc (Suc (Suc (Suc (Suc (Suc (Suc (Suc fuel)))))))))) e Parse w
              = Some (Inr ((Parse, w1) # (Topics, w2) # (Chunk_builder, w3) # (Chunk_persist, w4)
                           # (Entities, w5) # ?tail))"
    using r2
    by (simp add: run_graph_Suc [of e Parse w "parse_and_segment e w"] run_node_def
        next_node_def w1_def [symmetric, unfolded st_def] del: run_graph.simps)
  from r1 c10 show ?thesis by simp
qed

lemma ingest_run_fuel:
  assumes "\<forall>w. cr_needs_refine (env_cards e w)" "get_refine_count w = 0" "10 \<le> fuel"
  shows "\<exists>trace. run_ingest fuel e w = Some (Inr trace)
           \<and> map fst trace = [Parse, Topics, Chunk_builder, Chunk_persist, Entities,
                              Assertions, Cards, Assertions, Cards, Index]
           \<and> gs_refine_count (snd (last trace)) = Some 2"
proof -
  define k where "k = fuel - 10"
  with assms(3) have "fuel = Suc (Suc (Suc (Suc (Suc (Suc (Suc (Suc (Suc (Suc k)))))))))"
    by arith
  with ingest_run [OF assms(1,2), of k] show ?thesis by (simp add: run_ingest_def del: run_graph.simps)
qed


text \<open>
  C1, as the code has it. The collaborators of \<open>example_env\<close> ask for a refinement at
  every call of the card oracle; the run from \<open>refine_count = 0\<close> takes the edge from
  \<open>cards\<close> back to \<open>assertions\<close> once, not twice.
\<close>

theorem refine_bound_counterexample:
  "map_option (map_sum id (edge_count Cards Assertions)) (run_ingest 10 example_env example_world)
     = Some (Inr 1)"
  by code_simp


text \<open>
  C1, amended. With a card oracle that asks for a refinement at every call, a run
  started with \<open>refine_count\<close> 0 or absent (as the command line starts it) ends after
  ten nodes, for any fuel of at least ten: card synthesis runs twice, the edge from
  \<open>cards\<close> back to \<open>assertions\<close> is taken exactly once, the counter ends at 2, and
  control then goes to \<open>index\<close>.
\<close>

theorem refine_bound:
  assumes "\<forall>w. cr_needs_refine (env_cards e w)" and "get_refine_count w = 0" and "10 \<le> fuel"
  shows "\<exists>trace. run_ingest fuel e w = Some (Inr trace)
           \<and> map fst trace = [Parse, Topics, Chunk_builder, Chunk_persist, Entities,
                              Assertions, Cards, Assertions, Cards, Index]
           \<and> edge_count Cards Assertions trace = 1
           \<and> edge_count Cards Index trace = 1
           \<and> gs_refine_count (snd (last trace)) = Some 2"
proof -
  from ingest_run_fuel [OF assms] obtain trace where
    r: "run_ingest fuel e w = Some (Inr trace)"
    and m: "map fst trace = [Parse, Topics, Chunk_builder, Chunk_persist, Entities,
                              Assertions, Cards, Assertions, Cards, Index]"
    and c: "gs_refine_count (snd (last trace)) = Some 2" by auto
  from m have "edge_count Cards Assertions trace = 1" "edge_count Cards Index trace = 1"
    by (simp_all add: edge_count_def)
  with r m c show ?thesis by (intro exI [of _ trace]) simp
qed

theorem refine_bound_witness:
  "\<exists>trace. run_ingest 10 example_env example_world = Some (Inr trace)
     \<and> edge_count Cards Assertions trace = 1
     \<and> gs_refine_count (snd (last trace)) = Some 2"
proof -
  have a: "\<forall>w. cr_needs_refine (env_cards example_env w)" by (simp add: example_env_def)
  have b: "get_refine_count example_world = 0" by (simp add: get_refine_count_def example_world_def)
  from refine_bound [OF a b, of 10] show ?thesis by auto
qed


lemma refine_loop_any:
  assumes always: "\<forall>w. cr_needs_refine (env_cards e w)"
  shows "1 + 2 * nat (max 1 (2 - get_refine_count w)) \<le> fuel \<Longrightarrow>
     \<exists>trace. run_graph fuel e Assertions w = Some (Inr trace) \<and> trace \<noteq> []
        \<and> fst (last trace) = Index
        \<and> length trace = 1 + 2 * nat (max 1 (2 - get_refine_count w))"
proof (induction "nat (max 1 (2 - get_refine_count w))" arbitrary: w fuel rule: less_induct)
  case less
  define st where "st = (\<lambda>w :: world. w\<lparr> w_step := Suc (w_step w) \<rparr>)"
  define w6 where "w6 = st (assertion_extractor e w)"
  define w7 where "w7 = st (card_upserter e w6)"
  define w8 where "w8 = st (indexer w7)"
  have c6: "get_refine_count w6 = get_refine_count w"
    by (simp add: w6_def st_def get_refine_count_def assertion_extractor_frame)
  have c7: "get_refine_count w7 = get_refine_count w + 1" "gs_needs_refine w7 = Some True"
    using always c6 by (simp_all add: w7_def st_def card_upserter_refine get_refine_count_def)
  from less.prems obtain f where fuel: "fuel = Suc (Suc f)"
    and f: "2 * nat (max 1 (2 - get_refine_count w)) \<le> Suc f"
    by (cases fuel; cases "fuel - 1") auto
  show ?case
  proof (cases "get_refine_count w + 1 < 2")
    case True
    then have k: "nat (max 1 (2 - get_refine_count w7)) < nat (max 1 (2 - get_refine_count w))"
      and k2: "Suc (nat (max 1 (2 - get_refine_count w7))) = nat (max 1 (2 - get_refine_count w))"
      using c7(1) by auto
    from f k2 have "1 + 2 * nat (max 1 (2 - get_refine_count w7)) \<le> f" by linarith
    from less.hyps [OF k this] obtain trace where
      t: "run_graph f e Assertions w7 = Some (Inr trace)" and ne: "trace \<noteq> []"
      and l: "fst (last trace) = Index"
      and n: "length trace = 1 + 2 * nat (max 1 (2 - get_refine_count w7))" by auto
    from True c7 have nx: "next_node Cards w7 = Some Assertions"
      by (simp add: next_node_def should_refine_def)
    have r2: "run_graph (Suc f) e Cards w6 = Some (Inr ((Cards, w7) # trace))"
      using t nx
      by (simp add: run_graph_Suc [of e Cards w6 "card_upserter e w6"] run_node_def
          w7_def [symmetric, unfolded st_def] del: run_graph.simps)
    have r1: "run_graph (Suc (Suc f)) e Assertions w = Some (Inr ((Assertions, w6) # (Cards, w7) # trace))"
      using r2
      by (simp add: run_graph_Suc [of e Assertions w "assertion_extractor e w"] run_node_def
          next_node_def w6_def [symmetric, unfolded st_def] del: run_graph.simps)
    from r1 ne l n k2 fuel show ?thesis by (intro exI [of _ "(Assertions, w6) # (Cards, w7) # trace"]) auto
  next
    case False
    then have k1: "nat (max 1 (2 - get_refine_count w)) = 1" by auto
    with f obtain f' where f': "f = Suc f'" by (cases f) auto
    from False c7 have nx: "next_node Cards w7 = Some Index"
      by (simp add: next_node_def should_refine_def)
    have r3: "run_graph (Suc f') e Index w7 = Some (Inr [(Index, w8)])"
      by (simp add: run_node_def next_node_def w8_def st_def Let_def)
    have r2: "run_graph (Suc (Suc f')) e Cards w6 = Some (Inr [(Cards, w7), (Index, w8)])"
      using r3 nx
      by (simp add: run_graph_Suc [of e Cards w6 "card_upserter e w6"] run_node_def
          w7_def [symmetric, unfolded st_def] del: run_graph.simps)
    have r1: "run_graph (Suc (Suc (Suc f'))) e Assertions w
                = Some (Inr [(Assertions, w6), (Cards, w7), (Index, w8)])"
      using r2
      by (simp add: run_graph_Suc [of e Assertions w "assertion_extractor e w"] run_node_def
          next_node_def w6_def [symmetric, unfolded st_def] del: run_graph.simps)
    from r1 k1 fuel f' show ?thesis
      by (intro exI [of _ "[(Assertions, w6), (Cards, w7), (Index, w8)]"]) auto
  qed
qed

lemma ingest_run_any:
  assumes always: "\<forall>w. cr_needs_refine (env_cards e w)"
    and fuel: "6 + 2 * nat (max 1 (2 - get_refine_count w)) \<le> fuel"
  shows "\<exists>trace. run_ingest fuel e w = Some (Inr trace) \<and> fst (last trace) = Index
        \<and> length trace = 6 + 2 * nat (max 1 (2 - get_refine_count w))"
proof -
  define st where "st = (\<lambda>w :: world. w\<lparr> w_step := Suc (w_step w) \<rparr>)"
  define w1 where "w1 = st (parse_and_segment e w)"
  define w2 where "w2 = st (topic_threader e w1)"
  obtain cs where cb: "chunk_builder w2 = Some (Inr (w2\<lparr> gs_chunks := cs \<rparr>))"
    using chunk_builder_total by blast
  define w3 where "w3 = st (w2\<lparr> gs_chunks := cs \<rparr>)"
  define w4 where "w4 = st (chunk_persist e w3)"
  define w5 where "w5 = st (entity_extractor e w4)"
  have c5: "get_refine_count w5 = get_refine_count w"
    by (simp add: w5_def w4_def w3_def w2_def w1_def st_def get_refine_count_def
        entity_extractor_frame parse_and_segment_frame chunk_persist_def topic_threader_def)
  define f where "f = fuel - 5"
  with fuel have fu: "fuel = Suc (Suc (Suc (Suc (Suc f))))"
    and fb: "1 + 2 * nat (max 1 (2 - get_refine_count w5)) \<le> f"
    unfolding c5 by arith+
  from refine_loop_any [OF always fb] obtain tail where
    loop: "run_graph f e Assertions w5 = Some (Inr tail)" and ne: "tail \<noteq> []"
    and l: "fst (last tail) = Index"
    and n: "length tail = 1 + 2 * nat (max 1 (2 - get_refine_count w5))" by auto
  have r5: "run_graph (Suc f) e Entities w4 = Some (Inr ((Entities, w5) # tail))"
    using loop
    by (simp add: run_graph_Suc [of e Entities w4 "entity_extractor e w4"] run_node_def
        next_node_def w5_def [symmetric, unfolded st_def] del: run_graph.simps)
  have r4: "run_graph (Suc (Suc f)) e Chunk_persist w3
              = Some (Inr ((Chunk_persist, w4) # (Entities, w5) # tail))"
    using r5
    by (simp add: run_graph_Suc [of e Chunk_persist w3 "chunk_persist e w3"] run_node_def
        next_node_def w4_def [symmetric, unfolded st_def] del: run_graph.simps)
  have r3: "run_graph (Suc (Suc (Suc f))) e Chunk_builder w2
              = Some (Inr ((Chunk_builder, w3) # (Chunk_persist, w4) # (Entities, w5) # tail))"
  proof -
    have w3_eq: "w3 = w2\<lparr> gs_chunks := cs, w_step := Suc (w_step w2) \<rparr>"
      by (simp add: w3_def st_def)
    from r4 cb show ?thesis
      by (simp add: run_graph_Suc [of e Chunk_builder w2 "w2\<lparr> gs_chunks := cs \<rparr>"] run_node_def
          next_node_def w3_eq del: run_graph.simps)
  qed
  have r2: "run_graph (Suc (Suc (Suc (Suc f)))) e Topics w1
              = Some (Inr ((Topics, w2) # (Chunk_builder, w3) # (Chunk_persist, w4)
                           # (Entities, w5) # tail))"
    using r3
    by (simp add: run_graph_Suc [of e Topics w1 "topic_threader e w1"] run_node_def
        next_node_def w2_def [symmetric, unfolded st_def] del: run_graph.simps)
  have r1: "run_graph (Suc (Suc (Suc (Suc (Suc f))))) e Parse w
              = Some (Inr ((Parse, w1) # (Topics, w2) # (Chunk_builder, w3) # (Chunk_persist, w4)
                           # (Entities, w5) # tail))"
    using r2
    by (simp add: run_graph_Suc [of e Parse w "parse_and_segment e w"] run_node_def
        next_node_def w1_def [symmetric, unfolded st_def] del: run_graph.simps)
  from r1 ne l n c5 fu show ?thesis
    by (intro exI [of _ "(Parse, w1) # (Topics, w2) # (Chunk_builder, w3) # (Chunk_persist, w4)
                           # (Entities, w5) # tail"]) (auto simp: run_ingest_def simp del: run_graph.simps)
qed

text \<open>
  C10. A pass of \<open>card_upserter\<close> whose oracle result asks for a refinement changes
  two keys of the state, \<open>needs_refine\<close> and \<open>refine_count\<close>, and nothing else: the table
  of cards and the cards of the state are as they were, whatever cards the oracle
  offered. With an oracle that asks at every call, the run ends at \<open>index\<close> from any
  starting counter \<open>c\<close>, after \<open>6 + 2 * max 1 (2 - c)\<close> nodes, and after every node of the
  run the table of cards is the one the run started with.
\<close>

theorem refine_pass_persists_no_card:
  "(cr_needs_refine (env_cards e w0) \<longrightarrow>
      card_upserter e w0
        = w0\<lparr> gs_needs_refine := Some True, gs_refine_count := Some (get_refine_count w0 + 1) \<rparr>
      \<and> db_cards (card_upserter e w0) = db_cards w0
      \<and> gs_cards (card_upserter e w0) = gs_cards w0)
   \<and> ((\<forall>w. cr_needs_refine (env_cards e w))
        \<and> 6 + 2 * nat (max 1 (2 - get_refine_count w)) \<le> fuel \<longrightarrow>
        (\<exists>trace. run_ingest fuel e w = Some (Inr trace)
           \<and> fst (last trace) = Index
           \<and> length trace = 6 + 2 * nat (max 1 (2 - get_refine_count w))
           \<and> (\<forall>p \<in> set trace. db_cards (snd p) = db_cards w)))"
proof (intro conjI impI)
  assume "cr_needs_refine (env_cards e w0)"
  then show "card_upserter e w0
        = w0\<lparr> gs_needs_refine := Some True, gs_refine_count := Some (get_refine_count w0 + 1) \<rparr>"
    "db_cards (card_upserter e w0) = db_cards w0" "gs_cards (card_upserter e w0) = gs_cards w0"
    by (simp_all add: card_upserter_refine)
next
  assume h: "(\<forall>w. cr_needs_refine (env_cards e w))
        \<and> 6 + 2 * nat (max 1 (2 - get_refine_count w)) \<le> fuel"
  then have h1: "\<forall>w. cr_needs_refine (env_cards e w)"
    and h2: "6 + 2 * nat (max 1 (2 - get_refine_count w)) \<le> fuel" by auto
  from ingest_run_any [OF h1 h2]
  obtain trace where r: "run_ingest fuel e w = Some (Inr trace)"
    and l: "fst (last trace) = Index"
    and n: "length trace = 6 + 2 * nat (max 1 (2 - get_refine_count w))" by auto
  from r h1 have "\<forall>p \<in> set trace. db_cards (snd p) = db_cards w"
    using run_graph_cards_frame [of fuel e Parse w trace] by (simp add: run_ingest_def)
  with r l n show "\<exists>trace. run_ingest fuel e w = Some (Inr trace)
           \<and> fst (last trace) = Index
           \<and> length trace = 6 + 2 * nat (max 1 (2 - get_refine_count w))
           \<and> (\<forall>p \<in> set trace. db_cards (snd p) = db_cards w)"
    by (intro exI [of _ trace]) simp
qed


text \<open>
  The witness starts with one card in the table and an oracle that offers two cards:
  \<open>upsert_cards\<close> would overwrite the first and add the second.
\<close>

theorem refine_pass_persists_no_card_witness:
  "db_cards (card_upserter card_env card_world) = [example_card 1 ''old definition'']
   \<and> snd (upsert_cards (cr_cards (env_cards card_env card_world)) (db_cards card_world))
       = [example_card 1 ''new definition'', example_card 2 ''second'']
   \<and> (\<exists>trace. run_ingest 10 card_env card_world = Some (Inr trace)
        \<and> fst (last trace) = Index \<and> length trace = 10
        \<and> db_cards (snd (last trace)) = [example_card 1 ''old definition''])
   \<and> (\<exists>trace. run_ingest 12 card_env (card_world\<lparr> gs_refine_count := Some (- 1) \<rparr>) = Some (Inr trace)
        \<and> fst (last trace) = Index \<and> length trace = 12
        \<and> db_cards (snd (last trace)) = [example_card 1 ''old definition''])"
proof -
  let ?old = "[example_card 1 ''old definition'']"
  let ?w' = "card_world\<lparr> gs_refine_count := Some (- 1) \<rparr>"
  have a: "\<forall>w. cr_needs_refine (env_cards card_env w)" by (simp add: card_env_def)
  have b: "get_refine_count card_world = 0"
    by (simp add: get_refine_count_def card_world_def example_world_def)
  have b': "get_refine_count ?w' = - 1" by (simp add: get_refine_count_def)
  have d: "db_cards card_world = ?old" "db_cards ?w' = ?old" by (simp_all add: card_world_def)
  have u: "snd (upsert_cards (cr_cards (env_cards card_env card_world)) (db_cards card_world))
       = [example_card 1 ''new definition'', example_card 2 ''second'']"
    by (simp add: card_env_def card_world_def example_card_def upsert_cards_def Let_def)
  note t = refine_pass_persists_no_card [of card_env card_world card_world 10]
  from t a have 1: "db_cards (card_upserter card_env card_world) = ?old" using d by simp
  from t a b obtain trace where r: "run_ingest 10 card_env card_world = Some (Inr trace)"
    and i: "fst (last trace) = Index" and n: "length trace = 10"
    and f: "\<forall>p \<in> set trace. db_cards (snd p) = db_cards card_world" by auto
  from n have "trace \<noteq> []" by auto
  with f d have c: "db_cards (snd (last trace)) = ?old" by simp
  note t' = refine_pass_persists_no_card [of card_env card_world ?w' 12]
  from t' a b' obtain trace' where r': "run_ingest 12 card_env ?w' = Some (Inr trace')"
    and i': "fst (last trace') = Index" and n': "length trace' = 12"
    and f': "\<forall>p \<in> set trace'. db_cards (snd p) = db_cards ?w'" by auto
  from n' have "trace' \<noteq> []" by auto
  with f' d have c': "db_cards (snd (last trace')) = ?old" by simp
  from r i n c have 2: "\<exists>trace. run_ingest 10 card_env card_world = Some (Inr trace)
        \<and> fst (last trace) = Index \<and> length trace = 10
        \<and> db_cards (snd (last trace)) = ?old" by (intro exI [of _ trace]) simp
  from r' i' n' c' have 3: "\<exists>trace. run_ingest 12 card_env ?w' = Some (Inr trace)
        \<and> fst (last trace) = Index \<and> length trace = 12
        \<and> db_cards (snd (last trace)) = ?old" by (intro exI [of _ trace']) simp
  show ?thesis by (intro conjI) (rule 1 u 2 3)+
qed

end
